theory Spec2Isabelle
  imports Main "HOL-Library.Multiset"
begin

section \<open>Python values\<close>

text \<open>
  The exceptions the modelled code can raise. \<open>RemoteError\<close> stands for whatever the
  remote API client raises, \<open>StoreError\<close> for a failure of the sink.
\<close>

datatype error =
    KeyError | AttributeError | TypeError | IndexError | ValueError | ZeroDivisionError
  | RemoteError | StoreError

section \<open>hydration.py: LRUCache\<close>

text \<open>
  \<open>self.cache\<close> is an \<open>OrderedDict\<close>: an association list in insertion order, the first
  entry the least recently used, the last the most recently used. A stored value is a
  Python value, so it may be \<open>None\<close>; values are therefore \<open>'v option\<close>, with \<open>None\<close>
  for Python's \<open>None\<close>.
\<close>

record ('k, 'v) LRUCache =
  max_size :: int
  cache :: "('k \<times> 'v option) list"

definition LRUCache_init :: "int \<Rightarrow> ('k, 'v) LRUCache" where
  "LRUCache_init n = \<lparr>max_size = n, cache = []\<rparr>"

text \<open>\<open>key in d\<close>, \<open>d.pop(key)\<close>, \<open>d[key] = value\<close> and \<open>d.popitem(last=False)\<close>.\<close>

definition od_keys :: "('k \<times> 'a) list \<Rightarrow> 'k list" where
  "od_keys d = map fst d"

definition od_contains :: "'k \<Rightarrow> ('k \<times> 'a) list \<Rightarrow> bool" where
  "od_contains key d = (key \<in> set (od_keys d))"

definition od_pop :: "'k \<Rightarrow> ('k \<times> 'a) list \<Rightarrow> ('k \<times> 'a) list" where
  "od_pop key d = filter (\<lambda>kv. fst kv \<noteq> key) d"

fun od_setitem :: "'k \<Rightarrow> 'a \<Rightarrow> ('k \<times> 'a) list \<Rightarrow> ('k \<times> 'a) list" where
  "od_setitem key v [] = [(key, v)]"
| "od_setitem key v (kv # d) =
     (if fst kv = key then (key, v) # d else kv # od_setitem key v d)"

fun od_popitem_first :: "('k \<times> 'a) list \<Rightarrow> error + ('k \<times> 'a) list" where
  "od_popitem_first [] = Inl KeyError"
| "od_popitem_first (kv # d) = Inr d"

text \<open>
  \<open>get\<close> returns \<open>None\<close> for a key that is not stored and leaves the cache as it is;
  otherwise it pops the entry, stores it again at the end and returns the value.
\<close>

definition LRUCache_get :: "'k \<Rightarrow> ('k, 'v) LRUCache \<Rightarrow> 'v option \<times> ('k, 'v) LRUCache" where
  "LRUCache_get key c =
     (case map_of (cache c) key of
        None \<Rightarrow> (None, c)
      | Some v \<Rightarrow> (v, c\<lparr>cache := od_setitem key v (od_pop key (cache c))\<rparr>))"

text \<open>
  \<open>set\<close>: a stored key is popped; otherwise, when \<open>len(self.cache) >= self.max_size\<close>,
  the first entry is popped (\<open>popitem\<close> raises \<open>KeyError\<close> on an empty dict); then the
  pair is stored at the end.
\<close>

definition LRUCache_set ::
  "'k \<Rightarrow> 'v option \<Rightarrow> ('k, 'v) LRUCache \<Rightarrow> error + ('k, 'v) LRUCache" where
  "LRUCache_set key v c =
     (if od_contains key (cache c)
      then Inr (c\<lparr>cache := od_setitem key v (od_pop key (cache c))\<rparr>)
      else if int (length (cache c)) \<ge> max_size c
      then (case od_popitem_first (cache c) of
              Inl e \<Rightarrow> Inl e
            | Inr d \<Rightarrow> Inr (c\<lparr>cache := od_setitem key v d\<rparr>))
      else Inr (c\<lparr>cache := od_setitem key v (cache c)\<rparr>))"

text \<open>A sequence of calls on one cache; it stops at the first exception.\<close>

datatype ('k, 'v) lru_op = Get 'k | Set 'k "'v option"

fun lru_step :: "('k, 'v) LRUCache \<Rightarrow> ('k, 'v) lru_op \<Rightarrow> error + ('k, 'v) LRUCache" where
  "lru_step c (Get key) = Inr (snd (LRUCache_get key c))"
| "lru_step c (Set key v) = LRUCache_set key v c"

fun lru_run :: "('k, 'v) LRUCache \<Rightarrow> ('k, 'v) lru_op list \<Rightarrow> error + ('k, 'v) LRUCache" where
  "lru_run c [] = Inr c"
| "lru_run c (x # xs) = (case lru_step c x of Inl e \<Rightarrow> Inl e | Inr c' \<Rightarrow> lru_run c' xs)"

section \<open>Raw events as Python values\<close>

text \<open>
  A raw event is what \<open>json.loads\<close> returns: \<open>None\<close>, a bool, an int, a str, a list or a
  dict (an association list in insertion order, each key once). Floats are outside the
  model.
\<close>

datatype json =
    JNull | JBool bool | JInt int | JStr string
  | JArr "json list" | JObj "(string \<times> json) list"

text \<open>Truthiness, as \<open>if x:\<close> tests it.\<close>

fun truthy :: "json \<Rightarrow> bool" where
  "truthy JNull = False"
| "truthy (JBool b) = b"
| "truthy (JInt i) = (i \<noteq> 0)"
| "truthy (JStr s) = (s \<noteq> [])"
| "truthy (JArr xs) = (xs \<noteq> [])"
| "truthy (JObj d) = (d \<noteq> [])"

text \<open>
  Sequencing of steps that may raise: the first exception ends the computation.
\<close>

definition seq :: "error + 'a \<Rightarrow> ('a \<Rightarrow> error + 'b) \<Rightarrow> error + 'b" where
  "seq m f = (case m of Inl e \<Rightarrow> Inl e | Inr x \<Rightarrow> f x)"

text \<open>
  \<open>x.get(key, default)\<close>: only a dict has a \<open>get\<close> method; on any other value the
  attribute lookup raises \<open>AttributeError\<close>. \<open>x.get(key)\<close> is \<open>x.get(key, None)\<close>.
\<close>

fun py_get :: "json \<Rightarrow> string \<Rightarrow> json \<Rightarrow> error + json" where
  "py_get (JObj d) key dflt =
     Inr (case map_of d key of None \<Rightarrow> dflt | Some v \<Rightarrow> v)"
| "py_get v key dflt = Inl AttributeError"

text \<open>
  \<open>for x in v\<close>: a list yields its elements, a dict its keys, a str its characters (each a
  str of length one); any other value raises \<open>TypeError\<close>.
\<close>

fun py_iter :: "json \<Rightarrow> error + json list" where
  "py_iter (JArr xs) = Inr xs"
| "py_iter (JObj d) = Inr (map (\<lambda>kv. JStr (fst kv)) d)"
| "py_iter (JStr s) = Inr (map (\<lambda>ch. JStr [ch]) s)"
| "py_iter v = Inl TypeError"

text \<open>
  Keys of sets and dicts. Lists and dicts are unhashable: using one as a key raises
  \<open>TypeError\<close>. Python compares keys with \<open>==\<close>, under which \<open>True == 1\<close> and
  \<open>False == 0\<close>; \<open>py_key\<close> maps a value to the representative of its class.
\<close>

fun hashable :: "json \<Rightarrow> bool" where
  "hashable (JArr xs) = False"
| "hashable (JObj d) = False"
| "hashable v = True"

fun py_key :: "json \<Rightarrow> json" where
  "py_key (JBool b) = JInt (if b then 1 else 0)"
| "py_key v = v"

text \<open>
  A Python \<open>set\<close> is the list of its elements in insertion order, without two elements of
  the same key. \<open>s.add(x)\<close> keeps the element already stored.
\<close>

definition set_add :: "json \<Rightarrow> json list \<Rightarrow> error + json list" where
  "set_add x s =
     (if \<not> hashable x then Inl TypeError
      else if py_key x \<in> py_key ` set s then Inr s
      else Inr (s @ [x]))"

fun set_update :: "json list \<Rightarrow> json list \<Rightarrow> error + json list" where
  "set_update s [] = Inr s"
| "set_update s (x # xs) = seq (set_add x s) (\<lambda>s'. set_update s' xs)"

text \<open>
  A dict whose keys are Python values: \<open>d[k] = v\<close> replaces the value of an equal key in
  place and appends a new key; \<open>d.get(k)\<close> returns \<open>None\<close> for a key that is not stored.
\<close>

fun dict_setitem :: "json \<Rightarrow> 'a \<Rightarrow> (json \<times> 'a) list \<Rightarrow> (json \<times> 'a) list" where
  "dict_setitem k v [] = [(k, v)]"
| "dict_setitem k v (kv # d) =
     (if py_key (fst kv) = py_key k then (fst kv, v) # d else kv # dict_setitem k v d)"

fun dict_lookup :: "(json \<times> 'a) list \<Rightarrow> json \<Rightarrow> 'a option" where
  "dict_lookup [] k = None"
| "dict_lookup (kv # d) k =
     (if py_key (fst kv) = py_key k then Some (snd kv) else dict_lookup d k)"

definition dict_get :: "(json \<times> 'a option) list \<Rightarrow> json \<Rightarrow> error + 'a option" where
  "dict_get d k =
     (if \<not> hashable k then Inl TypeError
      else Inr (case dict_lookup d k of None \<Rightarrow> None | Some v \<Rightarrow> v))"

text \<open>A loop over a list whose body may raise.\<close>

fun for_each :: "('a \<Rightarrow> 's \<Rightarrow> error + 's) \<Rightarrow> 'a list \<Rightarrow> 's \<Rightarrow> error + 's" where
  "for_each body [] s = Inr s"
| "for_each body (x # xs) s = seq (body x s) (for_each body xs)"

section \<open>hydration.py: hydrate_bulk, phase 1 (reference collection)\<close>

text \<open>
  The local variables of phase 1. \<open>all_dids\<close>, \<open>all_uris\<close> and \<open>mention_dids_global\<close> are
  sets; \<open>record_mentions_map\<close> and \<open>record_embed_map\<close> are dicts keyed by the index of the
  record in the batch.
\<close>

record refs =
  all_dids :: "json list"
  all_uris :: "json list"
  mention_dids_global :: "json list"
  record_mentions_map :: "(nat \<times> json list) list"
  record_embed_map :: "(nat \<times> json) list"

definition empty_refs :: refs where
  "empty_refs = \<lparr>all_dids = [], all_uris = [], mention_dids_global = [],
     record_mentions_map = [], record_embed_map = []\<rparr>"

text \<open>The quote patch: the URI of an embedded record, when the embed is of that type.\<close>

definition collect_embed :: "nat \<Rightarrow> json \<Rightarrow> refs \<Rightarrow> error + refs" where
  "collect_embed idx c_record r =
     seq (py_get c_record ''embed'' (JObj [])) (\<lambda>embed.
     seq (py_get embed ''$type'' JNull) (\<lambda>ty.
       if ty = JStr ''app.bsky.embed.record'' then
         seq (py_get embed ''record'' (JObj [])) (\<lambda>embedded.
         seq (py_get embedded ''uri'' JNull) (\<lambda>quote_uri.
           if truthy quote_uri then
             seq (set_add quote_uri (all_uris r)) (\<lambda>uris.
               Inr (r\<lparr>all_uris := uris,
                      record_embed_map := od_setitem idx quote_uri (record_embed_map r)\<rparr>))
           else Inr r))
       else Inr r))"

text \<open>
  The two nested loops over facets and their features. The state of the loops is the
  pair of \<open>rec_dids\<close> (the mentions of this record) and \<open>mention_dids_global\<close>.
\<close>

definition collect_feature ::
  "json \<Rightarrow> json list \<times> json list \<Rightarrow> error + json list \<times> json list" where
  "collect_feature feature st =
     seq (py_get feature ''$type'' JNull) (\<lambda>ty.
       if ty = JStr ''app.bsky.richtext.facet#mention'' then
         seq (py_get feature ''did'' JNull) (\<lambda>mention_did.
           if truthy mention_did then
             seq (set_add mention_did (fst st)) (\<lambda>rec_dids.
             seq (set_add mention_did (snd st)) (\<lambda>global.
               Inr (rec_dids, global)))
           else Inr st)
       else Inr st)"

definition collect_facet ::
  "json \<Rightarrow> json list \<times> json list \<Rightarrow> error + json list \<times> json list" where
  "collect_facet facet st =
     seq (py_get facet ''features'' (JArr [])) (\<lambda>features.
     seq (py_iter features) (\<lambda>fs.
       for_each collect_feature fs st))"

text \<open>\<open>x.get(name, {}).get("uri")\<close>, then \<open>all_uris.add\<close> when the URI is truthy.\<close>

definition collect_reply_uri :: "json \<Rightarrow> string \<Rightarrow> json list \<Rightarrow> error + json list" where
  "collect_reply_uri reply name uris =
     seq (py_get reply name (JObj [])) (\<lambda>node.
     seq (py_get node ''uri'' JNull) (\<lambda>uri.
       if truthy uri then set_add uri uris else Inr uris))"

text \<open>The body of the loop \<open>for idx, rec in enumerate(records)\<close>.\<close>

definition collect_record :: "nat \<Rightarrow> json \<Rightarrow> refs \<Rightarrow> error + refs" where
  "collect_record idx rec r =
     seq (py_get rec ''did'' JNull) (\<lambda>did.
     seq (if truthy did then set_add did (all_dids r) else Inr (all_dids r)) (\<lambda>dids.
     seq (py_get rec ''commit'' (JObj [])) (\<lambda>commit.
     seq (py_get commit ''record'' (JObj [])) (\<lambda>c_record.
     seq (collect_embed idx c_record (r\<lparr>all_dids := dids\<rparr>)) (\<lambda>r1.
     seq (py_get c_record ''facets'' (JArr [])) (\<lambda>facets.
     seq (py_iter facets) (\<lambda>fs.
     seq (for_each collect_facet fs ([], mention_dids_global r1)) (\<lambda>st.
     seq (py_get c_record ''reply'' (JObj [])) (\<lambda>reply.
     seq (collect_reply_uri reply ''parent'' (all_uris r1)) (\<lambda>uris1.
     seq (collect_reply_uri reply ''root'' uris1) (\<lambda>uris2.
       Inr (r1\<lparr>all_uris := uris2, mention_dids_global := snd st,
                record_mentions_map :=
                  od_setitem idx (fst st) (record_mentions_map r1)\<rparr>))))))))))))"

text \<open>\<open>enumerate\<close>, the loop over the batch, and \<open>all_dids.update(mention_dids_global)\<close>.\<close>

definition enumerate_from0 :: "'a list \<Rightarrow> (nat \<times> 'a) list" where
  "enumerate_from0 xs = zip [0..<length xs] xs"

definition collect_refs :: "json list \<Rightarrow> error + refs" where
  "collect_refs records =
     seq (for_each (\<lambda>p. collect_record (fst p) (snd p)) (enumerate_from0 records) empty_refs)
       (\<lambda>r.
     seq (set_update (all_dids r) (mention_dids_global r)) (\<lambda>dids.
       Inr (r\<lparr>all_dids := dids\<rparr>)))"

section \<open>bluesky_api.py: chunked bulk calls\<close>

text \<open>
  A profile or post object of the remote API is the pair of its key (\<open>p.did\<close>,
  \<open>p.uri\<close>) and of what \<open>p.model_dump()\<close> returns, a value of the type \<open>'v\<close>. A client is
  given by its two remote calls, \<open>app.bsky.actor.get_profiles\<close> and
  \<open>app.bsky.feed.get_posts\<close>, each from the list of keys asked for to the objects of the
  response, or to the exception it raises.
\<close>

record 'v BlueskyAPI =
  get_profiles :: "json list \<Rightarrow> error + (string \<times> 'v) list"
  get_posts :: "json list \<Rightarrow> error + (string \<times> 'v) list"

text \<open>\<open>range(start, stop, step)\<close> for a positive step.\<close>

function py_range :: "nat \<Rightarrow> nat \<Rightarrow> nat \<Rightarrow> nat list" where
  "py_range i stop step =
     (if step = 0 \<or> stop \<le> i then [] else i # py_range (i + step) stop step)"
  by pat_completeness auto
termination
  by (relation "measure (\<lambda>(i, stop, step). stop - i)") auto

text \<open>
  \<open>asyncio.gather\<close>: the results in the order of the tasks, or the exception of a task
  that raised (of the first one in the list, in this model).
\<close>

fun gather :: "(error + 'a) list \<Rightarrow> error + 'a list" where
  "gather [] = Inr []"
| "gather (Inl e # ms) = Inl e"
| "gather (Inr x # ms) = seq (gather ms) (\<lambda>xs. Inr (x # xs))"

text \<open>\<open>merged.update(d)\<close> and the dict comprehension \<open>{p.did: p for p in ...}\<close>.\<close>

definition od_update :: "('k \<times> 'a) list \<Rightarrow> ('k \<times> 'a) list \<Rightarrow> ('k \<times> 'a) list" where
  "od_update merged d = fold (\<lambda>kv m. od_setitem (fst kv) (snd kv) m) d merged"

definition by_key :: "(string \<times> 'v) list \<Rightarrow> (string \<times> (string \<times> 'v)) list" where
  "by_key ps = fold (\<lambda>p m. od_setitem (fst p) p m) ps []"

text \<open>
  A remote call: what the client returns or raises for the keys, and the entry the
  call leaves in the log of the calls issued, which is the list of the keys it carried.
\<close>

definition call_get_profiles ::
  "'v BlueskyAPI \<Rightarrow> json list \<Rightarrow> (error + (string \<times> 'v) list) \<times> json list list" where
  "call_get_profiles api actors = (get_profiles api actors, [actors])"

definition call_get_posts ::
  "'v BlueskyAPI \<Rightarrow> json list \<Rightarrow> (error + (string \<times> 'v) list) \<times> json list list" where
  "call_get_posts api uris = (get_posts api uris, [uris])"

text \<open>
  \<open>_chunked_map\<close>. A task returns its result together with the log of the remote calls
  it issued; the second component of \<open>_chunked_map\<close> is the log of all its tasks in
  order. \<open>gather\<close> starts every task, so every task's calls are issued, also when one of
  them raises. \<open>range\<close> raises \<open>ValueError\<close> for a step of zero.
\<close>

definition chunked_map ::
  "'a list \<Rightarrow> nat \<Rightarrow> ('a list \<Rightarrow> (error + ('k \<times> 'b) list) \<times> 'c list) \<Rightarrow>
     (error + ('k \<times> 'b) list) \<times> 'c list" where
  "chunked_map items chunk_size fetcher =
     (if items = [] then (Inr [], [])
      else if chunk_size = 0 then (Inl ValueError, [])
      else
        let tasks = map (\<lambda>i. fetcher (take chunk_size (drop i items)))
                      (py_range 0 (length items) chunk_size)
        in (seq (gather (map fst tasks))
              (\<lambda>chunks. Inr (fold (\<lambda>d m. od_update m d) chunks [])),
            concat (map snd tasks)))"

text \<open>
  \<open>fetch_profiles\<close> and \<open>fetch_posts\<close>, the fetchers: one remote call for the keys of the
  chunk, and the dict of the objects of the response by their key.
\<close>

definition fetch_profiles ::
  "'v BlueskyAPI \<Rightarrow> json list \<Rightarrow>
     (error + (string \<times> (string \<times> 'v)) list) \<times> json list list" where
  "fetch_profiles api sub =
     (case call_get_profiles api sub of
        (resp, issued) \<Rightarrow> (seq resp (\<lambda>profiles. Inr (by_key profiles)), issued))"

definition fetch_posts ::
  "'v BlueskyAPI \<Rightarrow> json list \<Rightarrow>
     (error + (string \<times> (string \<times> 'v)) list) \<times> json list list" where
  "fetch_posts api sub =
     (case call_get_posts api sub of
        (resp, issued) \<Rightarrow> (seq resp (\<lambda>posts. Inr (by_key posts)), issued))"

definition get_user_data_for_dids ::
  "'v BlueskyAPI \<Rightarrow> json list \<Rightarrow>
     (error + (string \<times> (string \<times> 'v)) list) \<times> json list list" where
  "get_user_data_for_dids api dids = chunked_map dids 25 (fetch_profiles api)"

definition hydrate_records_for_uris ::
  "'v BlueskyAPI \<Rightarrow> json list \<Rightarrow>
     (error + (string \<times> (string \<times> 'v)) list) \<times> json list list" where
  "hydrate_records_for_uris api uris = chunked_map uris 25 (fetch_posts api)"

section \<open>hydration.py: hydrate_bulk, phases 2 to 5\<close>

text \<open>
  What the code takes from the Python runtime: the order in which a set is iterated
  (\<open>set_iter\<close>, from the elements in insertion order to the order of iteration), how
  \<open>str()\<close> renders a value that is not a str (\<open>py_repr\<close>), the draw of
  \<open>random.choice\<close>, and what \<open>s % x\<close> returns or raises for a str \<open>s\<close> (printf-style
  formatting, \<open>str_percent\<close>).
\<close>

record runtime =
  set_iter :: "json list \<Rightarrow> json list"
  py_repr :: "json \<Rightarrow> string"
  draw :: nat
  str_percent :: "string \<Rightarrow> int option \<Rightarrow> error + string"

text \<open>The class-level caches \<open>Hydration._user_cache\<close> and \<open>Hydration._post_cache\<close>.\<close>

record 'v Hydration =
  user_cache :: "(json, 'v) LRUCache"
  post_cache :: "(json, 'v) LRUCache"

text \<open>
  Phase 2: \<open>[d for d in all_dids if cache.get(d) is None]\<close>. Every \<open>get\<close> that finds its key
  moves the entry to the end of the cache.
\<close>

fun probe ::
  "json list \<Rightarrow> (json, 'v) LRUCache \<Rightarrow> json list \<times> (json, 'v) LRUCache" where
  "probe [] c = ([], c)"
| "probe (d # ds) c =
     (let got = LRUCache_get (py_key d) c;
          rest = probe ds (snd got)
      in (if fst got = None then d # fst rest else fst rest, snd rest))"

definition probe_caches ::
  "runtime \<Rightarrow> refs \<Rightarrow> 'v Hydration \<Rightarrow> json list \<times> json list \<times> 'v Hydration" where
  "probe_caches rt r h =
     (let users = probe (set_iter rt (all_dids r)) (user_cache h);
          posts = probe (set_iter rt (all_uris r)) (post_cache h)
      in (fst users, fst posts, \<lparr>user_cache = snd users, post_cache = snd posts\<rparr>))"

text \<open>\<open>random.choice\<close> raises \<open>IndexError\<close> on an empty sequence.\<close>

definition py_choice :: "nat \<Rightarrow> 'a list \<Rightarrow> error + 'a" where
  "py_choice rnd xs = (if xs = [] then Inl IndexError else Inr (xs ! (rnd mod length xs)))"

text \<open>
  Phase 3: the two bulk fetches, gathered. Both are started, so the calls of both are
  issued also when one of them raises.
\<close>

definition fetch_missing_users ::
  "'v BlueskyAPI \<Rightarrow> json list \<Rightarrow>
     (error + (string \<times> (string \<times> 'v)) list) \<times> json list list" where
  "fetch_missing_users api missing_dids =
     (if missing_dids = [] then (Inr [], []) else get_user_data_for_dids api missing_dids)"

definition fetch_missing_posts ::
  "'v BlueskyAPI \<Rightarrow> json list \<Rightarrow>
     (error + (string \<times> (string \<times> 'v)) list) \<times> json list list" where
  "fetch_missing_posts api missing_uris =
     (if missing_uris = [] then (Inr [], []) else hydrate_records_for_uris api missing_uris)"

record 'v fetched =
  fetched_users :: "(string \<times> (string \<times> 'v)) list"
  fetched_posts :: "(string \<times> (string \<times> 'v)) list"

record calls =
  profile_calls :: "json list list"
  post_calls :: "json list list"

definition fetch_missing ::
  "'v BlueskyAPI \<Rightarrow> json list \<Rightarrow> json list \<Rightarrow> (error + 'v fetched) \<times> calls" where
  "fetch_missing api missing_dids missing_uris =
     (let users = fetch_missing_users api missing_dids;
          posts = fetch_missing_posts api missing_uris
      in (seq (fst users) (\<lambda>fu. seq (fst posts) (\<lambda>fp.
            Inr \<lparr>fetched_users = fu, fetched_posts = fp\<rparr>)),
          \<lparr>profile_calls = snd users, post_calls = snd posts\<rparr>))"

text \<open>
  Phase 4, the writes: \<open>cache.set(key, value)\<close> for every item of a fetched dict. A
  fetched profile always has the attribute \<open>did\<close>, and a fetched post the method
  \<open>model_dump\<close>, so the two \<open>hasattr\<close> tests hold. The cache is returned also when a \<open>set\<close>
  raises.
\<close>

fun cache_set_all ::
  "(json \<times> 'v) list \<Rightarrow> (json, 'v) LRUCache \<Rightarrow> error option \<times> (json, 'v) LRUCache" where
  "cache_set_all [] c = (None, c)"
| "cache_set_all (kv # kvs) c =
     (case LRUCache_set (py_key (fst kv)) (Some (snd kv)) c of
        Inl e \<Rightarrow> (Some e, c)
      | Inr c' \<Rightarrow> cache_set_all kvs c')"

definition profile_items :: "(string \<times> (string \<times> 'v)) list \<Rightarrow> (json \<times> 'v) list" where
  "profile_items fetched = map (\<lambda>item. (JStr (fst (snd item)), snd (snd item))) fetched"

definition post_items :: "(string \<times> (string \<times> 'v)) list \<Rightarrow> (json \<times> 'v) list" where
  "post_items fetched = map (\<lambda>item. (JStr (fst item), snd (snd item))) fetched"

text \<open>
  Phase 4, the reads: for every key of the set, \<open>val = cache.get(d)\<close>, then
  \<open>cache.set(d, val)\<close> when \<open>val is not None\<close>, then \<open>did_to_profile[d] = val\<close>.
\<close>

fun read_out ::
  "json list \<Rightarrow> (json, 'v) LRUCache \<Rightarrow> (json \<times> 'v option) list \<Rightarrow>
     error option \<times> (json, 'v) LRUCache \<times> (json \<times> 'v option) list" where
  "read_out [] c m = (None, c, m)"
| "read_out (d # ds) c m =
     (let got = LRUCache_get (py_key d) c in
      case (if fst got \<noteq> None then LRUCache_set (py_key d) (fst got) (snd got)
            else Inr (snd got)) of
        Inl e \<Rightarrow> (Some e, snd got, m)
      | Inr c' \<Rightarrow> read_out ds c' (dict_setitem d (fst got) m))"

record 'v lookups =
  did_to_profile :: "(json \<times> 'v option) list"
  uri_to_post :: "(json \<times> 'v option) list"

definition publish ::
  "runtime \<Rightarrow> refs \<Rightarrow> 'v fetched \<Rightarrow> 'v Hydration \<Rightarrow> (error + 'v lookups) \<times> 'v Hydration" where
  "publish rt r f h =
     (case cache_set_all (profile_items (fetched_users f)) (user_cache h) of
        (Some e, uc) \<Rightarrow> (Inl e, h\<lparr>user_cache := uc\<rparr>)
      | (None, uc) \<Rightarrow>
     (case cache_set_all (post_items (fetched_posts f)) (post_cache h) of
        (Some e, pc) \<Rightarrow> (Inl e, \<lparr>user_cache = uc, post_cache = pc\<rparr>)
      | (None, pc) \<Rightarrow>
     (case read_out (set_iter rt (all_dids r)) uc [] of
        (Some e, uc', m) \<Rightarrow> (Inl e, \<lparr>user_cache = uc', post_cache = pc\<rparr>)
      | (None, uc', profiles) \<Rightarrow>
     (case read_out (set_iter rt (all_uris r)) pc [] of
        (Some e, pc', m) \<Rightarrow> (Inl e, \<lparr>user_cache = uc', post_cache = pc'\<rparr>)
      | (None, pc', posts) \<Rightarrow>
          (Inr \<lparr>did_to_profile = profiles, uri_to_post = posts\<rparr>,
           \<lparr>user_cache = uc', post_cache = pc'\<rparr>)))))"

text \<open>
  Phase 5. The values of an enriched record: a value of the raw event (\<open>None\<close> is
  \<open>PJson JNull\<close>), a cached dump, or a dict.
\<close>

datatype 'v pyval = PJson json | PDump 'v | PDict "(json \<times> 'v pyval) list"

definition opt_val :: "'v option \<Rightarrow> 'v pyval" where
  "opt_val x = (case x of None \<Rightarrow> PJson JNull | Some v \<Rightarrow> PDump v)"

text \<open>\<open>str(x)\<close> inside an f-string: a str is itself.\<close>

definition py_str :: "runtime \<Rightarrow> json \<Rightarrow> string" where
  "py_str rt x = (case x of JStr s \<Rightarrow> s | _ \<Rightarrow> py_repr rt x)"

definition lookup_if_truthy ::
  "(json \<times> 'v option) list \<Rightarrow> json \<Rightarrow> error + 'v option" where
  "lookup_if_truthy d uri = (if truthy uri then dict_get d uri else Inr None)"

definition mention_entry ::
  "'v lookups \<Rightarrow> json \<Rightarrow> (json \<times> 'v option) list \<Rightarrow> error + (json \<times> 'v option) list" where
  "mention_entry lk mention_did mention_dict =
     seq (dict_get (did_to_profile lk) mention_did) (\<lambda>profile.
       Inr (dict_setitem mention_did profile mention_dict))"

definition enrich :: "runtime \<Rightarrow> refs \<Rightarrow> 'v lookups \<Rightarrow> nat \<Rightarrow> json \<Rightarrow> error + 'v pyval" where
  "enrich rt r lk idx rec =
     seq (py_get rec ''commit'' (JObj [])) (\<lambda>commit.
     seq (py_get commit ''record'' (JObj [])) (\<lambda>c_record.
     seq (py_get rec ''did'' (JStr [])) (\<lambda>did.
     seq (py_get commit ''collection'' (JStr [])) (\<lambda>collection.
     seq (py_get commit ''rkey'' (JStr [])) (\<lambda>rkey.
     let at_uri =
           (if truthy did \<and> truthy collection \<and> truthy rkey
            then ''at://'' @ py_str rt did @ ''/'' @ py_str rt collection @ ''/'' @ py_str rt rkey
            else [])
     in
     seq (py_get c_record ''time_us'' JNull) (\<lambda>time_us.
     seq (dict_get (did_to_profile lk) did) (\<lambda>user_profile.
     seq (case map_of (record_mentions_map r) idx of
            None \<Rightarrow> Inl KeyError | Some rec_dids \<Rightarrow> Inr rec_dids) (\<lambda>rec_dids.
     seq (for_each (mention_entry lk) (set_iter rt rec_dids) []) (\<lambda>mention_dict.
     seq (py_get c_record ''reply'' (JObj [])) (\<lambda>reply.
     seq (py_get reply ''parent'' (JObj [])) (\<lambda>parent.
     seq (py_get parent ''uri'' JNull) (\<lambda>parent_uri.
     seq (lookup_if_truthy (uri_to_post lk) parent_uri) (\<lambda>parent_post.
     seq (py_get reply ''root'' (JObj [])) (\<lambda>root.
     seq (py_get root ''uri'' JNull) (\<lambda>root_uri.
     seq (lookup_if_truthy (uri_to_post lk) root_uri) (\<lambda>root_post.
     let quote_uri = (case map_of (record_embed_map r) idx of None \<Rightarrow> JNull | Some u \<Rightarrow> u) in
     seq (lookup_if_truthy (uri_to_post lk) quote_uri) (\<lambda>quote_post.
       Inr (PDict
         [(JStr ''at_uri'', PJson (JStr at_uri)),
          (JStr ''did'', PJson did),
          (JStr ''time_us'', PJson time_us),
          (JStr ''message'', PJson rec),
          (JStr ''hydrated_metadata'', PDict
            [(JStr ''user'', opt_val user_profile),
             (JStr ''mentions'', PDict (map (\<lambda>kv. (fst kv, opt_val (snd kv))) mention_dict)),
             (JStr ''parent_post'', opt_val parent_post),
             (JStr ''reply_post'', opt_val root_post),
             (JStr ''quote_post'', opt_val quote_post)])]))))))))))))))))))"

definition assemble ::
  "runtime \<Rightarrow> refs \<Rightarrow> 'v lookups \<Rightarrow> json list \<Rightarrow> error + 'v pyval list" where
  "assemble rt r lk records =
     for_each (\<lambda>p enriched_list.
         seq (enrich rt r lk (fst p) (snd p)) (\<lambda>enriched_obj.
           Inr (enriched_list @ [enriched_obj])))
       (enumerate_from0 records) []"

text \<open>
  \<open>hydrate_bulk\<close>: the list of enriched records or the exception, the caches as the call
  leaves them, and the remote calls it issued.
\<close>

definition no_calls :: calls where
  "no_calls = \<lparr>profile_calls = [], post_calls = []\<rparr>"

definition hydrate_bulk ::
  "runtime \<Rightarrow> 'v BlueskyAPI list \<Rightarrow> json list \<Rightarrow> 'v Hydration \<Rightarrow>
     (error + 'v pyval list) \<times> 'v Hydration \<times> calls" where
  "hydrate_bulk rt api_clients records h =
     (case collect_refs records of
        Inl e \<Rightarrow> (Inl e, h, no_calls)
      | Inr r \<Rightarrow>
     (case probe_caches rt r h of (missing_dids, missing_uris, h1) \<Rightarrow>
     (case py_choice (draw rt) api_clients of
        Inl e \<Rightarrow> (Inl e, h1, no_calls)
      | Inr api \<Rightarrow>
     (case fetch_missing api missing_dids missing_uris of
        (Inl e, cs) \<Rightarrow> (Inl e, h1, cs)
      | (Inr f, cs) \<Rightarrow>
     (case publish rt r f h1 of
        (Inl e, h2) \<Rightarrow> (Inl e, h2, cs)
      | (Inr lk, h2) \<Rightarrow> (assemble rt r lk records, h2, cs))))))"

section \<open>turbocharger.py: TurboCharger\<close>

text \<open>
  \<open>modulo\<close> and \<open>shard\<close> are ints or \<open>None\<close>. \<open>semaphore\<close> is the number of free permits of
  the \<open>asyncio.Semaphore\<close>. The class-level caches of \<open>Hydration\<close> are carried in the
  state as \<open>hydration\<close>.
\<close>

record 'v TurboCharger =
  modulo :: "int option"
  shard :: "int option"
  buffer :: "json list"
  semaphore :: nat
  bluesky_clients :: "'v BlueskyAPI list"
  hydration :: "'v Hydration"

definition BATCH_SIZE :: nat where
  "BATCH_SIZE = 10"

text \<open>\<open>not x\<close> for an int or \<open>None\<close>.\<close>

definition py_not :: "int option \<Rightarrow> bool" where
  "py_not x = (x = None \<or> x = Some 0)"

text \<open>
  \<open>x % m\<close>. For an int (a bool is an int) and an int \<open>m\<close> it is the remainder of the floor
  division, and \<open>ZeroDivisionError\<close> when \<open>m\<close> is zero; for a str it is printf-style
  formatting; every other pair of operands raises \<open>TypeError\<close>.
\<close>

definition int_mod :: "int \<Rightarrow> int option \<Rightarrow> error + json" where
  "int_mod a m =
     (case m of
        None \<Rightarrow> Inl TypeError
      | Some b \<Rightarrow> if b = 0 then Inl ZeroDivisionError else Inr (JInt (a mod b)))"

fun py_mod :: "runtime \<Rightarrow> json \<Rightarrow> int option \<Rightarrow> error + json" where
  "py_mod rt (JInt a) m = int_mod a m"
| "py_mod rt (JBool b) m = int_mod (if b then 1 else 0) m"
| "py_mod rt (JStr s) m = seq (str_percent rt s m) (\<lambda>t. Inr (JStr t))"
| "py_mod rt v m = Inl TypeError"

text \<open>\<open>x == self.shard\<close>: a str never equals an int or \<open>None\<close>.\<close>

fun py_eq_shard :: "json \<Rightarrow> int option \<Rightarrow> bool" where
  "py_eq_shard (JInt a) s = (s = Some a)"
| "py_eq_shard v s = False"

text \<open>
  The condition of \<open>run\<close> under which a record of the stream is appended to the buffer:
  \<open>(not self.modulo and not self.shard) or
  (record.get("time_us") % self.modulo == self.shard)\<close>.
\<close>

definition keep_record :: "runtime \<Rightarrow> int option \<Rightarrow> int option \<Rightarrow> json \<Rightarrow> error + bool" where
  "keep_record rt m s rec =
     (if py_not m \<and> py_not s then Inr True
      else
        seq (py_get rec ''time_us'' JNull) (\<lambda>time_us.
        seq (py_mod rt time_us m) (\<lambda>x.
          Inr (py_eq_shard x s))))"

text \<open>
  \<open>_hydrate_and_release\<close>: hydrate, store, and release the permit in the \<open>finally\<close>
  block. \<open>store\<close> is \<open>self.storage.store_records\<close>, the sink.
\<close>

definition hydrate_and_release ::
  "runtime \<Rightarrow> ('v pyval list \<Rightarrow> error + unit) \<Rightarrow> json list \<Rightarrow> 'v TurboCharger \<Rightarrow>
     (error + unit) \<times> 'v TurboCharger \<times> calls" where
  "hydrate_and_release rt store records tc =
     (case hydrate_bulk rt (bluesky_clients tc) records (hydration tc) of
        (enriched, h, cs) \<Rightarrow>
          (seq enriched store,
           tc\<lparr>hydration := h, semaphore := semaphore tc + 1\<rparr>, cs))"

text \<open>
  \<open>_process_batch\<close>: take the batch off the buffer, acquire a permit, start the task.
  The model runs the task at once; with no permit free the call would wait, which is
  the result \<open>None\<close>. An exception of the task stays in the task.
\<close>

definition acquire :: "nat \<Rightarrow> nat option" where
  "acquire n = (if n = 0 then None else Some (n - 1))"

definition process_batch ::
  "runtime \<Rightarrow> ('v pyval list \<Rightarrow> error + unit) \<Rightarrow> 'v TurboCharger \<Rightarrow>
     ((error + unit) \<times> 'v TurboCharger \<times> calls) option" where
  "process_batch rt store tc =
     (let batch = take BATCH_SIZE (buffer tc);
          tc1 = tc\<lparr>buffer := drop BATCH_SIZE (buffer tc)\<rparr>
      in case acquire (semaphore tc1) of
           None \<Rightarrow> None
         | Some n \<Rightarrow> Some (hydrate_and_release rt store batch (tc1\<lparr>semaphore := n\<rparr>)))"

text \<open>The body of the loop of \<open>run\<close> for one record of the stream.\<close>

definition run_step ::
  "runtime \<Rightarrow> ('v pyval list \<Rightarrow> error + unit) \<Rightarrow> 'v TurboCharger \<Rightarrow> json \<Rightarrow>
     (error + 'v TurboCharger) option" where
  "run_step rt store tc rec =
     (case keep_record rt (modulo tc) (shard tc) rec of
        Inl e \<Rightarrow> Some (Inl e)
      | Inr keep \<Rightarrow>
          let tc1 = (if keep then tc\<lparr>buffer := buffer tc @ [rec]\<rparr> else tc)
          in if length (buffer tc1) \<ge> BATCH_SIZE
             then map_option (\<lambda>res. Inr (fst (snd res))) (process_batch rt store tc1)
             else Some (Inr tc1))"

text \<open>
  The invariant of a cache of capacity \<open>n\<close>: the configured maximum is \<open>n\<close>, no key is
  stored twice, and at most \<open>n\<close> entries are stored.
\<close>

definition lru_inv :: "int \<Rightarrow> ('k, 'v) LRUCache \<Rightarrow> bool" where
  "lru_inv n c = (max_size c = n \<and> distinct (map fst (cache c)) \<and> int (length (cache c)) \<le> n)"

section \<open>Vocabulary of the properties\<close>

text \<open>
  \<open>e[name]\<close> for an enriched record or its metadata, and the total form of
  \<open>x.get(key, dflt)\<close>, which is the default also where \<open>x\<close> is not a dict.
\<close>

definition py_field :: "'v pyval \<Rightarrow> string \<Rightarrow> 'v pyval option" where
  "py_field e name = (case e of PDict d \<Rightarrow> dict_lookup d (JStr name) | _ \<Rightarrow> None)"

definition dget :: "json \<Rightarrow> string \<Rightarrow> json \<Rightarrow> json" where
  "dget x key dflt = (case py_get x key dflt of Inl e \<Rightarrow> dflt | Inr v \<Rightarrow> v)"

text \<open>
  The path from an event to its \<open>commit\<close> and to the record inside it, a missing node
  being the empty dict.
\<close>

definition event_commit :: "json \<Rightarrow> json" where
  "event_commit rec = dget rec ''commit'' (JObj [])"

definition event_record :: "json \<Rightarrow> json" where
  "event_record rec = dget (event_commit rec) ''record'' (JObj [])"

text \<open>
  A runtime, a client and caches to run the model on. Sets are iterated in insertion
  order; \<open>str()\<close> renders \<open>None\<close>, a bool and an int as Python does (the examples render no
  list and no dict); \<open>s % x\<close> raises. The client answers every str key with its length as
  the dump (a profile) or with 100 plus its length (a post). The caches are empty.
\<close>

function digits :: "nat \<Rightarrow> string" where
  "digits n =
     (if n < 10 then [char_of (48 + n)] else digits (n div 10) @ [char_of (48 + n mod 10)])"
  by pat_completeness auto
termination
  by (relation "measure (\<lambda>n. n)") auto

definition str_int :: "int \<Rightarrow> string" where
  "str_int i = (if i < 0 then CHR ''-'' # digits (nat (- i)) else digits (nat i))"

fun example_repr :: "json \<Rightarrow> string" where
  "example_repr JNull = ''None''"
| "example_repr (JBool b) = (if b then ''True'' else ''False'')"
| "example_repr (JInt i) = str_int i"
| "example_repr v = ''...''"

definition rt_insertion :: runtime where
  "rt_insertion = \<lparr>set_iter = (\<lambda>xs. xs), py_repr = example_repr, draw = 0,
     str_percent = (\<lambda>s m. Inl TypeError)\<rparr>"

definition echo_keys :: "nat \<Rightarrow> json list \<Rightarrow> (string \<times> nat) list" where
  "echo_keys n ks = concat (map (\<lambda>k. case k of JStr s \<Rightarrow> [(s, n + length s)] | _ \<Rightarrow> []) ks)"

definition echo_api :: "nat BlueskyAPI" where
  "echo_api = \<lparr>get_profiles = (\<lambda>ks. Inr (echo_keys 0 ks)),
     get_posts = (\<lambda>ks. Inr (echo_keys 100 ks))\<rparr>"

definition empty_caches :: "int \<Rightarrow> nat Hydration" where
  "empty_caches n = \<lparr>user_cache = LRUCache_init n, post_cache = LRUCache_init n\<rparr>"

text \<open>
  Two events: a post of \<open>D1\<close> with no references, and a reply of \<open>D1\<close> that mentions \<open>D2\<close>
  and quotes a post.
\<close>

definition plain_event :: json where
  "plain_event = JObj [(''did'', JStr ''D1''), (''time_us'', JInt 1700000000000017),
     (''commit'', JObj [(''collection'', JStr ''c''), (''rkey'', JStr ''r''),
        (''record'', JObj [])])]"

definition reply_event :: json where
  "reply_event = JObj [(''did'', JStr ''D1''),
     (''commit'', JObj [(''collection'', JStr ''c''), (''rkey'', JStr ''r''),
        (''record'', JObj
           [(''reply'', JObj [(''parent'', JObj [(''uri'', JStr ''at://X/c/p'')]),
                              (''root'', JObj [(''uri'', JStr ''at://Y/c/r'')])]),
            (''facets'', JArr [JObj [(''features'', JArr
               [JObj [(''$type'', JStr ''app.bsky.richtext.facet#mention''),
                      (''did'', JStr ''D2'')]])]]),
            (''embed'', JObj [(''$type'', JStr ''app.bsky.embed.record''),
                              (''record'', JObj [(''uri'', JStr ''at://Z/c/q'')])])])])]"

text \<open>
  What \<open>hydrate_bulk\<close> returns for the batch of the reply and the plain post, run with
  empty caches of capacity 5, the caches it leaves and the calls it issues.
\<close>

definition example_batch :: "json list" where
  "example_batch = [reply_event, plain_event]"

definition reply_enriched :: "nat pyval" where
  "reply_enriched = PDict
     [(JStr ''at_uri'', PJson (JStr ''at://D1/c/r'')),
      (JStr ''did'', PJson (JStr ''D1'')),
      (JStr ''time_us'', PJson JNull),
      (JStr ''message'', PJson reply_event),
      (JStr ''hydrated_metadata'', PDict
         [(JStr ''user'', PDump 2),
          (JStr ''mentions'', PDict [(JStr ''D2'', PDump 2)]),
          (JStr ''parent_post'', PDump 110),
          (JStr ''reply_post'', PDump 110),
          (JStr ''quote_post'', PDump 110)])]"

definition plain_enriched :: "nat pyval" where
  "plain_enriched = PDict
     [(JStr ''at_uri'', PJson (JStr ''at://D1/c/r'')),
      (JStr ''did'', PJson (JStr ''D1'')),
      (JStr ''time_us'', PJson JNull),
      (JStr ''message'', PJson plain_event),
      (JStr ''hydrated_metadata'', PDict
         [(JStr ''user'', PDump 2),
          (JStr ''mentions'', PDict []),
          (JStr ''parent_post'', PJson JNull),
          (JStr ''reply_post'', PJson JNull),
          (JStr ''quote_post'', PJson JNull)])]"

definition example_caches :: "nat Hydration" where
  "example_caches =
     \<lparr>user_cache = \<lparr>max_size = 5, cache = [(JStr ''D1'', Some 2), (JStr ''D2'', Some 2)]\<rparr>,
      post_cache = \<lparr>max_size = 5, cache =
        [(JStr ''at://Z/c/q'', Some 110), (JStr ''at://X/c/p'', Some 110),
         (JStr ''at://Y/c/r'', Some 110)]\<rparr>\<rparr>"

definition example_calls :: calls where
  "example_calls =
     \<lparr>profile_calls = [[JStr ''D1'', JStr ''D2'']],
      post_calls = [[JStr ''at://Z/c/q'', JStr ''at://X/c/p'', JStr ''at://Y/c/r'']]\<rparr>"

text \<open>An event whose \<open>commit.collection\<close> is the int 5 instead of a str.\<close>

definition numeric_collection_event :: json where
  "numeric_collection_event = JObj [(''did'', JStr ''D1''),
     (''commit'', JObj [(''collection'', JInt 5), (''rkey'', JStr ''r'')])]"

text \<open>
  The slices \<open>items[i : i + n]\<close> for \<open>i\<close> in \<open>range(0, len(items), n)\<close>, as \<open>_chunked_map\<close>
  builds them.
\<close>

definition chunks_of :: "nat \<Rightarrow> 'a list \<Rightarrow> 'a list list" where
  "chunks_of n items = map (\<lambda>i. take n (drop i items)) (py_range 0 (length items) n)"

text \<open>
  What \<open>cache.get(key)\<close> returns: the stored value, \<open>None\<close> for a key that is not stored.
\<close>

definition cached :: "('k, 'v) LRUCache \<Rightarrow> 'k \<Rightarrow> 'v option" where
  "cached c key = (case map_of (cache c) key of None \<Rightarrow> None | Some v \<Rightarrow> v)"

text \<open>
  The sets of phase 1 hold no key twice; this is kept by every \<open>add\<close>. \<open>pair_distinct\<close> says
  it of the two sets the loops over the facets carry.
\<close>

definition refs_inv :: "refs \<Rightarrow> bool" where
  "refs_inv r = (distinct (map py_key (all_dids r)) \<and> distinct (map py_key (all_uris r)) \<and>
     distinct (map py_key (mention_dids_global r)))"

definition pair_distinct :: "json list \<times> json list \<Rightarrow> bool" where
  "pair_distinct st = (distinct (map py_key (fst st)) \<and> distinct (map py_key (snd st)))"

text \<open>What phase 1 collects from the example batch.\<close>

definition example_refs :: refs where
  "example_refs = \<lparr>all_dids = [JStr ''D1'', JStr ''D2''],
     all_uris = [JStr ''at://Z/c/q'', JStr ''at://X/c/p'', JStr ''at://Y/c/r''],
     mention_dids_global = [JStr ''D2''],
     record_mentions_map = [(0, [JStr ''D2'']), (1, [])],
     record_embed_map = [(0, JStr ''at://Z/c/q'')]\<rparr>"

text \<open>
  A client whose profile call raises, a \<open>TurboCharger\<close> holding it with one permit of
  the hundred taken, and a sink that stores.
\<close>

definition failing_api :: "nat BlueskyAPI" where
  "failing_api = \<lparr>get_profiles = (\<lambda>ks. Inl RemoteError),
     get_posts = (\<lambda>ks. Inr (echo_keys 100 ks))\<rparr>"

definition example_charger :: "nat TurboCharger" where
  "example_charger = \<lparr>modulo = None, shard = None, buffer = [], semaphore = 99,
     bluesky_clients = [failing_api], hydration = empty_caches 5\<rparr>"

definition store_ok :: "nat pyval list \<Rightarrow> error + unit" where
  "store_ok enriched = Inr ()"

section \<open>What an event refers to\<close>

text \<open>
  The references of an event, read with the total accessors: a node that is missing or
  not a dict counts as the empty dict, a value that cannot be iterated as the empty
  list. \<open>event_mentions\<close> are the truthy \<open>did\<close>s of the mention features of the facets,
  \<open>quote_uri_of\<close> the \<open>uri\<close> of the embedded record when the embed is a record embed,
  \<open>reply_uri_of\<close> the \<open>uri\<close> of the reply's parent or root. \<open>event_dids\<close> and \<open>event_uris\<close>
  are the truthy ones among them.
\<close>

definition list_items :: "json \<Rightarrow> json list" where
  "list_items x = (case py_iter x of Inl e \<Rightarrow> [] | Inr xs \<Rightarrow> xs)"

definition feature_mention :: "json \<Rightarrow> json list" where
  "feature_mention feature =
     (if dget feature ''$type'' JNull = JStr ''app.bsky.richtext.facet#mention'' \<and>
         truthy (dget feature ''did'' JNull)
      then [dget feature ''did'' JNull] else [])"

definition facet_mentions :: "json \<Rightarrow> json list" where
  "facet_mentions facet =
     concat (map feature_mention (list_items (dget facet ''features'' (JArr []))))"

definition event_mentions :: "json \<Rightarrow> json list" where
  "event_mentions rec =
     concat (map facet_mentions (list_items (dget (event_record rec) ''facets'' (JArr []))))"

definition event_embed :: "json \<Rightarrow> json" where
  "event_embed rec = dget (event_record rec) ''embed'' (JObj [])"

definition quote_uri_of :: "json \<Rightarrow> json" where
  "quote_uri_of rec =
     (if dget (event_embed rec) ''$type'' JNull = JStr ''app.bsky.embed.record''
      then dget (dget (event_embed rec) ''record'' (JObj [])) ''uri'' JNull
      else JNull)"

definition event_reply :: "json \<Rightarrow> json" where
  "event_reply rec = dget (event_record rec) ''reply'' (JObj [])"

definition reply_uri_of :: "json \<Rightarrow> string \<Rightarrow> json" where
  "reply_uri_of rec name = dget (dget (event_reply rec) name (JObj [])) ''uri'' JNull"

definition event_dids :: "json \<Rightarrow> json list" where
  "event_dids rec = filter truthy [dget rec ''did'' JNull] @ event_mentions rec"

definition event_uris :: "json \<Rightarrow> json list" where
  "event_uris rec =
     filter truthy [quote_uri_of rec, reply_uri_of rec ''parent'', reply_uri_of rec ''root'']"

text \<open>
  A well-shaped event: every intermediate node is missing or a dict (the embedded
  record only where the embed is a record embed), \<open>facets\<close> and the \<open>features\<close> of every
  facet are missing or a list, and every reference to collect is hashable.
\<close>

fun is_dict :: "json \<Rightarrow> bool" where
  "is_dict (JObj d) = True"
| "is_dict v = False"

fun is_list :: "json \<Rightarrow> bool" where
  "is_list (JArr xs) = True"
| "is_list v = False"

definition feature_ok :: "json \<Rightarrow> bool" where
  "feature_ok feature = (is_dict feature \<and> list_all hashable (feature_mention feature))"

definition facet_ok :: "json \<Rightarrow> bool" where
  "facet_ok facet =
     (is_dict facet \<and> is_list (dget facet ''features'' (JArr [])) \<and>
      list_all feature_ok (list_items (dget facet ''features'' (JArr []))))"

definition event_ok :: "json \<Rightarrow> bool" where
  "event_ok rec =
     (is_dict rec \<and> is_dict (event_commit rec) \<and> is_dict (event_record rec) \<and>
      is_dict (event_embed rec) \<and>
      (dget (event_embed rec) ''$type'' JNull = JStr ''app.bsky.embed.record'' \<longrightarrow>
         is_dict (dget (event_embed rec) ''record'' (JObj []))) \<and>
      is_list (dget (event_record rec) ''facets'' (JArr [])) \<and>
      list_all facet_ok (list_items (dget (event_record rec) ''facets'' (JArr []))) \<and>
      is_dict (event_reply rec) \<and>
      is_dict (dget (event_reply rec) ''parent'' (JObj [])) \<and>
      is_dict (dget (event_reply rec) ''root'' (JObj [])) \<and>
      list_all hashable (event_dids rec) \<and> list_all hashable (event_uris rec))"

text \<open>An event whose \<open>commit\<close> is \<open>None\<close>.\<close>

definition null_commit_event :: json where
  "null_commit_event = JObj [(''did'', JStr ''D1''), (''commit'', JNull)]"

text \<open>
  An event that mentions 25 accounts, with what phase 1 collects from it: 26 DIDs,
  one more than a call carries.
\<close>


definition mention_feature :: "string \<Rightarrow> json" where
  "mention_feature d = JObj [(''$type'', JStr ''app.bsky.richtext.facet#mention''), (''did'', JStr d)]"

definition crowd_names :: "string list" where
  "crowd_names = map (\<lambda>n. ''M'' @ digits n) [0..<25]"

definition crowd_event :: json where
  "crowd_event = JObj [(''did'', JStr ''D1''),
     (''commit'', JObj [(''collection'', JStr ''c''), (''rkey'', JStr ''r''),
        (''record'', JObj
           [(''facets'', JArr [JObj [(''features'', JArr (map mention_feature crowd_names))]])])])]"

definition crowd_refs :: refs where
  "crowd_refs = \<lparr>all_dids = JStr ''D1'' # map JStr crowd_names, all_uris = [],
     mention_dids_global = map JStr crowd_names,
     record_mentions_map = [(0, map JStr crowd_names)], record_embed_map = []\<rparr>"

section \<open>Properties of LRUCache\<close>


lemma od_setitem_absent:
  "key \<notin> fst ` set d \<Longrightarrow> od_setitem key v d = d @ [(key, v)]"
  by (induction d) auto

lemma od_pop_absent: "key \<notin> fst ` set (od_pop key d)"
  by (auto simp: od_pop_def)

lemma od_setitem_pop: "od_setitem key v (od_pop key d) = od_pop key d @ [(key, v)]"
  by (rule od_setitem_absent) (rule od_pop_absent)

lemma distinct_od_pop: "distinct (map fst d) \<Longrightarrow> distinct (map fst (od_pop key d))"
  by (simp add: od_pop_def distinct_map_filter)

lemma od_pop_id: "key \<notin> fst ` set d \<Longrightarrow> od_pop key d = d"
  by (auto simp: od_pop_def filter_id_conv)

lemma length_od_pop_present:
  "distinct (map fst d) \<Longrightarrow> key \<in> fst ` set d \<Longrightarrow> Suc (length (od_pop key d)) = length d"
proof (induction d)
  case Nil then show ?case by simp
next
  case (Cons a d)
  show ?case
  proof (cases "fst a = key")
    case True
    with Cons.prems have "key \<notin> fst ` set d" by auto
    then have "od_pop key d = d" by (rule od_pop_id)
    with True show ?thesis by (simp add: od_pop_def)
  next
    case False
    with Cons show ?thesis by (auto simp: od_pop_def)
  qed
qed

lemma map_of_present: "map_of d key = Some v \<Longrightarrow> key \<in> fst ` set d"
  by (metis map_of_eq_None_iff option.distinct(1))

lemma lru_get_absent:
  "\<not> od_contains key (cache c) \<Longrightarrow> LRUCache_get key c = (None, c)"
  by (simp add: LRUCache_get_def od_contains_def od_keys_def map_of_eq_None_iff[THEN iffD2])

lemma lru_get_present:
  "distinct (map fst (cache c)) \<Longrightarrow> (key, v) \<in> set (cache c) \<Longrightarrow>
     LRUCache_get key c = (v, c\<lparr>cache := od_pop key (cache c) @ [(key, v)]\<rparr>)"
  by (simp add: LRUCache_get_def od_setitem_pop)

lemma lru_set_present:
  "od_contains key (cache c) \<Longrightarrow>
     LRUCache_set key v c = Inr (c\<lparr>cache := od_pop key (cache c) @ [(key, v)]\<rparr>)"
  by (simp add: LRUCache_set_def od_setitem_pop)

lemma lru_set_full:
  "\<not> od_contains key (cache c) \<Longrightarrow> int (length (cache c)) \<ge> max_size c \<Longrightarrow> cache c \<noteq> [] \<Longrightarrow>
     LRUCache_set key v c = Inr (c\<lparr>cache := tl (cache c) @ [(key, v)]\<rparr>)"
  by (cases "cache c")
     (auto simp: LRUCache_set_def od_contains_def od_keys_def od_setitem_absent)

lemma lru_set_room:
  "\<not> od_contains key (cache c) \<Longrightarrow> int (length (cache c)) < max_size c \<Longrightarrow>
     LRUCache_set key v c = Inr (c\<lparr>cache := cache c @ [(key, v)]\<rparr>)"
  by (auto simp: LRUCache_set_def od_contains_def od_keys_def od_setitem_absent)

lemma lru_inv_get: "lru_inv n c \<Longrightarrow> lru_inv n (snd (LRUCache_get key c))"
proof (cases "map_of (cache c) key")
  case None
  assume "lru_inv n c"
  with None show ?thesis by (simp add: LRUCache_get_def)
next
  case (Some v)
  assume inv: "lru_inv n c"
  from Some have "key \<in> fst ` set (cache c)" by (rule map_of_present)
  with inv have "Suc (length (od_pop key (cache c))) = length (cache c)"
    by (simp add: lru_inv_def length_od_pop_present)
  with inv Some show ?thesis
    by (simp add: LRUCache_get_def od_setitem_pop lru_inv_def distinct_od_pop od_pop_absent)
qed

lemma lru_inv_set:
  assumes "1 \<le> n" and inv: "lru_inv n c"
  shows "\<exists>c'. LRUCache_set key v c = Inr c' \<and> lru_inv n c'"
proof (cases "od_contains key (cache c)")
  case True
  then have "key \<in> fst ` set (cache c)" by (simp add: od_contains_def od_keys_def)
  with inv have "Suc (length (od_pop key (cache c))) = length (cache c)"
    by (simp add: lru_inv_def length_od_pop_present)
  with inv True show ?thesis
    by (simp add: lru_set_present lru_inv_def distinct_od_pop od_pop_absent)
next
  case absent: False
  show ?thesis
  proof (cases "int (length (cache c)) \<ge> max_size c")
    case True
    with assms have ne: "cache c \<noteq> []" by (auto simp: lru_inv_def)
    then obtain kv d where d: "cache c = kv # d" by (cases "cache c") auto
    with absent inv True ne show ?thesis
      by (auto simp: lru_set_full lru_inv_def od_contains_def od_keys_def)
  next
    case False
    with absent inv show ?thesis
      by (auto simp: lru_set_room lru_inv_def od_contains_def od_keys_def)
  qed
qed

lemma lru_run_inv:
  "1 \<le> n \<Longrightarrow> lru_inv n c \<Longrightarrow> \<exists>c'. lru_run c ops = Inr c' \<and> lru_inv n c'"
proof (induction ops arbitrary: c)
  case Nil then show ?case by simp
next
  case (Cons x ops)
  show ?case
  proof (cases x)
    case (Get key)
    with Cons.IH[OF Cons.prems(1) lru_inv_get[OF Cons.prems(2), of key]] show ?thesis by simp
  next
    case (Set key v)
    from lru_inv_set[OF Cons.prems, of key v] obtain c' where
      "LRUCache_set key v c = Inr c'" "lru_inv n c'" by blast
    with Cons.IH[OF Cons.prems(1), of c'] Set show ?thesis by simp
  qed
qed

text \<open>
  Claim C1. Start from an empty cache of capacity \<open>n \<ge> 1\<close> and run any sequence of
  \<open>get\<close> and \<open>set\<close> calls. No call raises, and in the cache \<open>c\<close> reached: at most \<open>n\<close>
  keys are stored, each once; \<open>get\<close> of a key that is not stored returns \<open>None\<close> and
  leaves the cache as it is; \<open>get\<close> of a stored key returns its value and moves the
  entry to the end (most recently used), the other entries keeping their order; \<open>set\<close>
  of a stored key replaces the value and moves the entry to the end, the number of
  entries staying the same; \<open>set\<close> of a new key into a cache holding fewer than \<open>n\<close>
  entries appends it at the end and drops nothing; \<open>set\<close> of a new key into a cache
  holding \<open>n\<close> entries drops the first entry and appends the new one. Every call
  thus puts its key last and keeps the order of the others, so the first entry is the
  least recently used one.
\<close>

theorem LRUCache_sequence:
  assumes "1 \<le> n"
  shows "\<exists>c. lru_run (LRUCache_init n) ops = Inr c \<and>
           int (length (cache c)) \<le> n \<and> distinct (map fst (cache c)) \<and>
           (k \<notin> fst ` set (cache c) \<longrightarrow> LRUCache_get k c = (None, c)) \<and>
           ((k, v) \<in> set (cache c) \<longrightarrow>
              LRUCache_get k c =
                (v, c\<lparr>cache := filter (\<lambda>kv. fst kv \<noteq> k) (cache c) @ [(k, v)]\<rparr>)) \<and>
           (k \<in> fst ` set (cache c) \<longrightarrow>
              LRUCache_set k w c =
                Inr (c\<lparr>cache := filter (\<lambda>kv. fst kv \<noteq> k) (cache c) @ [(k, w)]\<rparr>) \<and>
              Suc (length (filter (\<lambda>kv. fst kv \<noteq> k) (cache c))) = length (cache c)) \<and>
           (k \<notin> fst ` set (cache c) \<and> int (length (cache c)) < n \<longrightarrow>
              LRUCache_set k w c = Inr (c\<lparr>cache := cache c @ [(k, w)]\<rparr>)) \<and>
           (k \<notin> fst ` set (cache c) \<and> int (length (cache c)) = n \<longrightarrow>
              cache c \<noteq> [] \<and>
              LRUCache_set k w c = Inr (c\<lparr>cache := tl (cache c) @ [(k, w)]\<rparr>))"
proof -
  have "lru_inv n (LRUCache_init n :: ('a, 'b) LRUCache)"
    using assms by (simp add: lru_inv_def LRUCache_init_def)
  from lru_run_inv[OF assms this, of ops] obtain c :: "('a, 'b) LRUCache" where
    run: "lru_run (LRUCache_init n) ops = Inr c" and inv: "lru_inv n c" by blast
  from inv have d: "distinct (map fst (cache c))" and le: "int (length (cache c)) \<le> n"
    and ms: "max_size c = n"
    by (simp_all add: lru_inv_def)
  have a: "k \<notin> fst ` set (cache c) \<longrightarrow> LRUCache_get k c = (None, c)"
    by (simp add: lru_get_absent od_contains_def od_keys_def)
  have b: "(k, v) \<in> set (cache c) \<longrightarrow>
              LRUCache_get k c =
                (v, c\<lparr>cache := filter (\<lambda>kv. fst kv \<noteq> k) (cache c) @ [(k, v)]\<rparr>)"
    using lru_get_present[OF d, of k v] by (simp add: od_pop_def)
  have c1: "k \<in> fst ` set (cache c) \<longrightarrow>
              LRUCache_set k w c =
                Inr (c\<lparr>cache := filter (\<lambda>kv. fst kv \<noteq> k) (cache c) @ [(k, w)]\<rparr>) \<and>
              Suc (length (filter (\<lambda>kv. fst kv \<noteq> k) (cache c))) = length (cache c)"
    using lru_set_present[of k c w] length_od_pop_present[OF d, of k]
    by (simp add: od_pop_def od_contains_def od_keys_def)
  have e: "k \<notin> fst ` set (cache c) \<and> int (length (cache c)) = n \<longrightarrow>
              cache c \<noteq> [] \<and>
              LRUCache_set k w c = Inr (c\<lparr>cache := tl (cache c) @ [(k, w)]\<rparr>)"
  proof (intro impI, elim conjE)
    assume abs: "k \<notin> fst ` set (cache c)" and full: "int (length (cache c)) = n"
    from full assms have ne: "cache c \<noteq> []" by auto
    from abs have "\<not> od_contains k (cache c)" by (simp add: od_contains_def od_keys_def)
    from lru_set_full[OF this _ ne, of w] full ms ne
    show "cache c \<noteq> [] \<and> LRUCache_set k w c = Inr (c\<lparr>cache := tl (cache c) @ [(k, w)]\<rparr>)"
      by simp
  qed
  have room: "k \<notin> fst ` set (cache c) \<and> int (length (cache c)) < n \<longrightarrow>
              LRUCache_set k w c = Inr (c\<lparr>cache := cache c @ [(k, w)]\<rparr>)"
    using lru_set_room[of k c w] ms by (simp add: od_contains_def od_keys_def)
  from run le d a b c1 room e show ?thesis by blast
qed

text \<open>
  At capacity 2: \<open>set A, set B\<close> append \<open>A\<close> and then \<open>B\<close>, so \<open>set C\<close> evicts \<open>A\<close>. After
  \<open>set A, set B, get A\<close> the key \<open>B\<close> is the least recently used, so \<open>set C\<close> evicts \<open>B\<close>; a
  following \<open>get A\<close> moves \<open>A\<close> behind \<open>C\<close>.
\<close>

theorem LRUCache_sequence_witness:
  "lru_run (LRUCache_init 2) [Set ''A'' (Some (1::nat)), Set ''B'' (Some 2)]
     = Inr \<lparr>max_size = 2, cache = [(''A'', Some 1), (''B'', Some 2)]\<rparr> \<and>
   lru_run (LRUCache_init 2) [Set ''A'' (Some (1::nat)), Set ''B'' (Some 2), Set ''C'' (Some 3)]
     = Inr \<lparr>max_size = 2, cache = [(''B'', Some 2), (''C'', Some 3)]\<rparr> \<and>
   lru_run (LRUCache_init 2) [Set ''A'' (Some (1::nat)), Set ''B'' (Some 2), Get ''A'', Set ''C'' (Some 3)]
     = Inr \<lparr>max_size = 2, cache = [(''A'', Some 1), (''C'', Some 3)]\<rparr> \<and>
   LRUCache_get ''A'' \<lparr>max_size = 2, cache = [(''A'', Some (1::nat)), (''C'', Some 3)]\<rparr>
     = (Some 1, \<lparr>max_size = 2, cache = [(''C'', Some 3), (''A'', Some 1)]\<rparr>)"
  using LRUCache_sequence[of 2 "[Set ''A'' (Some (1::nat)), Set ''B'' (Some 2), Get ''A'', Set ''C'' (Some 3)]" "''A''" "Some 1" "Some 7"]
  by (simp add: LRUCache_init_def LRUCache_set_def LRUCache_get_def od_contains_def od_keys_def od_pop_def)

section \<open>Properties of hydrate_bulk: the shape of the output\<close>


lemma seq_Inr_iff: "seq m f = Inr y \<longleftrightarrow> (\<exists>x. m = Inr x \<and> f x = Inr y)"
  by (cases m) (simp_all add: seq_def)

lemma seq_Inr [simp]: "seq (Inr x) f = f x"
  by (simp add: seq_def)

lemma seq_Inl [simp]: "seq (Inl e) f = Inl e"
  by (simp add: seq_def)

lemma py_get_dget: "py_get x key dflt = Inr v \<Longrightarrow> dget x key dflt = v"
  by (simp add: dget_def)

lemma for_each_collect:
  "for_each (\<lambda>p acc. seq (g p) (\<lambda>e. Inr (acc @ [e]))) ps acc = Inr out \<Longrightarrow>
     \<exists>es. out = acc @ es \<and> list_all2 (\<lambda>p e. g p = Inr e) ps es"
proof (induction ps arbitrary: acc)
  case Nil
  then show ?case by simp
next
  case (Cons p ps)
  from Cons.prems obtain e where e: "g p = Inr e"
    and rest: "for_each (\<lambda>p acc. seq (g p) (\<lambda>e. Inr (acc @ [e]))) ps (acc @ [e]) = Inr out"
    by (auto simp: seq_Inr_iff)
  from Cons.IH[OF rest] obtain es where "out = (acc @ [e]) @ es"
    and "list_all2 (\<lambda>p e. g p = Inr e) ps es" by blast
  with e show ?case by (intro exI[of _ "e # es"]) simp
qed

lemma assemble_Inr:
  assumes "assemble rt r lk records = Inr out"
  shows "length out = length records"
    and "i < length records \<Longrightarrow> enrich rt r lk i (records ! i) = Inr (out ! i)"
proof -
  from assms obtain es where out: "out = [] @ es"
    and all: "list_all2 (\<lambda>p e. enrich rt r lk (fst p) (snd p) = Inr e) (enumerate_from0 records) es"
    unfolding assemble_def by (drule_tac for_each_collect) blast
  from all have len: "length es = length records"
    by (simp add: list_all2_lengthD[symmetric] enumerate_from0_def)
  with out show "length out = length records" by simp
  assume i: "i < length records"
  with len all have "enrich rt r lk (fst (enumerate_from0 records ! i)) (snd (enumerate_from0 records ! i)) = Inr (es ! i)"
    by (simp add: list_all2_conv_all_nth enumerate_from0_def)
  with i out show "enrich rt r lk i (records ! i) = Inr (out ! i)"
    by (simp add: enumerate_from0_def)
qed

lemma hydrate_bulk_returns:
  assumes "hydrate_bulk rt apis records h = (Inr out, h', cs)"
  obtains r md mu h1 api f lk where
    "collect_refs records = Inr r" "probe_caches rt r h = (md, mu, h1)"
    "py_choice (draw rt) apis = Inr api" "fetch_missing api md mu = (Inr f, cs)"
    "publish rt r f h1 = (Inr lk, h')" "assemble rt r lk records = Inr out"
  using assms unfolding hydrate_bulk_def
  by (auto split: sum.splits prod.splits)

lemma enrich_shape:
  assumes "enrich rt r lk idx rec = Inr e"
  shows "\<exists>at_uri did time_us md. e = PDict
         [(JStr ''at_uri'', PJson (JStr at_uri)), (JStr ''did'', PJson did),
          (JStr ''time_us'', PJson time_us), (JStr ''message'', PJson rec),
          (JStr ''hydrated_metadata'', PDict md)]"
  using assms unfolding enrich_def Let_def seq_Inr_iff by blast

lemma enrich_message:
  "enrich rt r lk idx rec = Inr e \<Longrightarrow> py_field e ''message'' = Some (PJson rec)"
  by (drule enrich_shape) (auto simp: py_field_def)

text \<open>
  Claim C2. When \<open>hydrate_bulk\<close> returns, it returns as many enriched records as the
  batch has events, and the \<open>message\<close> of the record at each position is the event at that
  position of the batch, unchanged.
\<close>

theorem hydrate_bulk_messages:
  assumes "hydrate_bulk rt api_clients records h = (Inr out, h', cs)"
  shows "length out = length records \<and>
         map (\<lambda>e. py_field e ''message'') out = map (\<lambda>rec. Some (PJson rec)) records"
proof -
  from assms obtain r lk where a: "assemble rt r lk records = Inr out"
    by (rule hydrate_bulk_returns)
  have len: "length out = length records" by (rule assemble_Inr(1)[OF a])
  have "py_field (out ! i) ''message'' = Some (PJson (records ! i))" if "i < length records" for i
    using assemble_Inr(2)[OF a that] by (rule enrich_message)
  with len show ?thesis by (simp add: list_eq_iff_nth_eq)
qed

text \<open>The run of the model on the example batch.\<close>

lemma example_run:
  "hydrate_bulk rt_insertion [echo_api] example_batch (empty_caches 5) =
     (Inr [reply_enriched, plain_enriched], example_caches, example_calls)"
  by code_simp

theorem hydrate_bulk_messages_witness:
  "fst (hydrate_bulk rt_insertion [echo_api] example_batch (empty_caches 5)) =
     Inr [reply_enriched, plain_enriched] \<and>
   map (\<lambda>e. py_field e ''message'') [reply_enriched, plain_enriched] =
     [Some (PJson reply_event), Some (PJson plain_event)]"
  using hydrate_bulk_messages[OF example_run] example_run
  by (simp add: example_batch_def)

lemma enrich_fields:
  assumes "enrich rt r lk idx rec = Inr e"
  shows "\<exists>user_profile rec_dids mention_dict parent_post root_post quote_post.
     e = PDict
       [(JStr ''at_uri'', PJson (JStr
           (if truthy (dget rec ''did'' (JStr [])) \<and>
               truthy (dget (event_commit rec) ''collection'' (JStr [])) \<and>
               truthy (dget (event_commit rec) ''rkey'' (JStr []))
            then ''at://'' @ py_str rt (dget rec ''did'' (JStr [])) @ ''/'' @
                 py_str rt (dget (event_commit rec) ''collection'' (JStr [])) @ ''/'' @
                 py_str rt (dget (event_commit rec) ''rkey'' (JStr []))
            else []))),
        (JStr ''did'', PJson (dget rec ''did'' (JStr []))),
        (JStr ''time_us'', PJson (dget (event_record rec) ''time_us'' JNull)),
        (JStr ''message'', PJson rec),
        (JStr ''hydrated_metadata'', PDict
          [(JStr ''user'', opt_val user_profile),
           (JStr ''mentions'', PDict (map (\<lambda>kv. (fst kv, opt_val (snd kv))) mention_dict)),
           (JStr ''parent_post'', opt_val parent_post),
           (JStr ''reply_post'', opt_val root_post),
           (JStr ''quote_post'', opt_val quote_post)])] \<and>
     dict_get (did_to_profile lk) (dget rec ''did'' (JStr [])) = Inr user_profile \<and>
     map_of (record_mentions_map r) idx = Some rec_dids \<and>
     for_each (mention_entry lk) (set_iter rt rec_dids) [] = Inr mention_dict"
proof -
  from assms obtain commit c_record did collection rkey where
    g: "py_get rec ''commit'' (JObj []) = Inr commit"
       "py_get commit ''record'' (JObj []) = Inr c_record"
       "py_get rec ''did'' (JStr []) = Inr did"
       "py_get commit ''collection'' (JStr []) = Inr collection"
       "py_get commit ''rkey'' (JStr []) = Inr rkey"
    unfolding enrich_def seq_Inr_iff by blast
  then have d: "event_commit rec = commit" "event_record rec = c_record"
    "dget rec ''did'' (JStr []) = did" "dget commit ''collection'' (JStr []) = collection"
    "dget commit ''rkey'' (JStr []) = rkey"
    by (simp_all add: event_commit_def event_record_def dget_def)
  from assms g show ?thesis
    unfolding enrich_def d 
    apply (simp add: Let_def)
    apply (auto simp add: seq_Inr_iff dget_def split: option.splits)
    done
qed

section \<open>Properties of hydrate_bulk: the fields of an enriched record\<close>

lemma hydrate_bulk_enrich:
  assumes "hydrate_bulk rt api_clients records h = (Inr out, h', cs)"
    and "i < length records"
  obtains r lk f h1 where "collect_refs records = Inr r" "publish rt r f h1 = (Inr lk, h')"
    "enrich rt r lk i (records ! i) = Inr (out ! i)" "length out = length records"
proof -
  from assms(1) obtain r md mu h1 api f lk where
    *: "collect_refs records = Inr r" "publish rt r f h1 = (Inr lk, h')"
    "assemble rt r lk records = Inr out"
    by (rule hydrate_bulk_returns)
  from assemble_Inr[OF *(3)] assms(2) * that show thesis by blast
qed

text \<open>
  Claim C8 (the code departs from it). The plain post carries the top-level \<open>time_us\<close>
  1700000000000017, the field the shard filter reads, and its enriched record has
  \<open>time_us = None\<close>: \<open>hydrate_bulk\<close> reads \<open>time_us\<close> from \<open>commit.record\<close>, as the lemma
  after this theorem states for every event.
\<close>

theorem time_us_is_not_the_event_time:
  "dget plain_event ''time_us'' JNull = JInt 1700000000000017 \<and>
   fst (hydrate_bulk rt_insertion [echo_api] [plain_event] (empty_caches 5)) = Inr [plain_enriched] \<and>
   py_field plain_enriched ''time_us'' = Some (PJson JNull)"
  by code_simp

lemma hydrate_bulk_time_us:
  assumes "hydrate_bulk rt api_clients records h = (Inr out, h', cs)"
    and "i < length records"
  shows "py_field (out ! i) ''time_us'' = Some (PJson (dget (event_record (records ! i)) ''time_us'' JNull))"
proof -
  from assms obtain r lk where "enrich rt r lk i (records ! i) = Inr (out ! i)"
    by (rule hydrate_bulk_enrich)
  from enrich_fields[OF this] show ?thesis
    by (auto simp: py_field_def)
qed

text \<open>
  Claim C9 fails as stated: the event whose \<open>commit.collection\<close> is the int 5 gets the
  \<open>at_uri\<close> \<open>at://D1/5/r\<close>, which is not empty, although one of the three components is
  not a str.
\<close>

theorem at_uri_counterexample:
  "fst (hydrate_bulk rt_insertion [echo_api] [numeric_collection_event] (empty_caches 5)) =
     Inr [PDict
       [(JStr ''at_uri'', PJson (JStr ''at://D1/5/r'')),
        (JStr ''did'', PJson (JStr ''D1'')),
        (JStr ''time_us'', PJson JNull),
        (JStr ''message'', PJson numeric_collection_event),
        (JStr ''hydrated_metadata'', PDict
          [(JStr ''user'', PDump 2),
           (JStr ''mentions'', PDict []),
           (JStr ''parent_post'', PJson JNull),
           (JStr ''reply_post'', PJson JNull),
           (JStr ''quote_post'', PJson JNull)])]] \<and>
   dget (event_commit numeric_collection_event) ''collection'' (JStr []) = JInt 5"
  by code_simp

text \<open>
  Claim C9, amended. With \<open>did\<close>, \<open>collection\<close> and \<open>rkey\<close> the values of the event's
  \<open>did\<close>, \<open>commit.collection\<close> and \<open>commit.rkey\<close> (the empty str where the key is missing),
  the \<open>at_uri\<close> of the enriched record is \<open>at://did/collection/rkey\<close>, each component
  rendered by \<open>str()\<close>, when all three are truthy, and the empty str otherwise; so it
  is non-empty iff all three are truthy. Where the three are strs, it is non-empty iff
  all three are non-empty, and is then their concatenation with the separators.
\<close>

theorem hydrate_bulk_at_uri:
  assumes "hydrate_bulk rt api_clients records h = (Inr out, h', cs)"
    and "i < length records"
    and "did = dget (records ! i) ''did'' (JStr [])"
    and "collection = dget (event_commit (records ! i)) ''collection'' (JStr [])"
    and "rkey = dget (event_commit (records ! i)) ''rkey'' (JStr [])"
  shows "\<exists>at_uri. py_field (out ! i) ''at_uri'' = Some (PJson (JStr at_uri)) \<and>
     at_uri = (if truthy did \<and> truthy collection \<and> truthy rkey
               then ''at://'' @ py_str rt did @ ''/'' @ py_str rt collection @ ''/'' @ py_str rt rkey
               else []) \<and>
     (at_uri \<noteq> [] \<longleftrightarrow> truthy did \<and> truthy collection \<and> truthy rkey) \<and>
     (\<forall>a b c. did = JStr a \<and> collection = JStr b \<and> rkey = JStr c \<longrightarrow>
        (at_uri \<noteq> [] \<longleftrightarrow> a \<noteq> [] \<and> b \<noteq> [] \<and> c \<noteq> []) \<and>
        (a \<noteq> [] \<and> b \<noteq> [] \<and> c \<noteq> [] \<longrightarrow> at_uri = ''at://'' @ a @ ''/'' @ b @ ''/'' @ c))"
proof -
  from assms(1,2) obtain r lk where "enrich rt r lk i (records ! i) = Inr (out ! i)"
    by (rule hydrate_bulk_enrich)
  from enrich_fields[OF this] show ?thesis
    unfolding assms(3-5)
    by (auto simp: py_field_def py_str_def)
qed

theorem hydrate_bulk_at_uri_witness:
  "fst (hydrate_bulk rt_insertion [echo_api] example_batch (empty_caches 5)) =
     Inr [reply_enriched, plain_enriched] \<and>
   dget (example_batch ! 1) ''did'' (JStr []) = JStr ''D1'' \<and>
   dget (event_commit (example_batch ! 1)) ''collection'' (JStr []) = JStr ''c'' \<and>
   dget (event_commit (example_batch ! 1)) ''rkey'' (JStr []) = JStr ''r'' \<and>
   py_field ([reply_enriched, plain_enriched] ! 1) ''at_uri'' = Some (PJson (JStr ''at://D1/c/r''))"
proof -
  have i: "1 < length example_batch" by (simp add: example_batch_def)
  have d: "dget (example_batch ! 1) ''did'' (JStr []) = JStr ''D1''"
    "dget (event_commit (example_batch ! 1)) ''collection'' (JStr []) = JStr ''c''"
    "dget (event_commit (example_batch ! 1)) ''rkey'' (JStr []) = JStr ''r''"
    by code_simp+
  from hydrate_bulk_at_uri[OF example_run i d[symmetric]] example_run d
  show ?thesis by (auto simp: py_str_def)
qed

section \<open>Properties of TurboCharger: the shard filter\<close>


text \<open>
  Claim C6 (the code departs from it). The condition of \<open>run\<close> bypasses the filter only
  when \<open>modulo\<close> and \<open>shard\<close> are both zero or unset. With \<open>modulo\<close> zero (the default of
  the command line) or unset and a shard that is not zero, the remainder is still
  computed and raises: \<open>ZeroDivisionError\<close> for the modulo 0, \<open>TypeError\<close> for the modulo
  \<open>None\<close>; the claim has the event kept. And an event without \<open>time_us\<close>, here the reply,
  is not dropped under an active filter: \<open>None % 4\<close> raises \<open>TypeError\<close>.
\<close>

theorem shard_filter_raises:
  "py_get plain_event ''time_us'' JNull = Inr (JInt 1700000000000017) \<and>
   keep_record rt_insertion (Some 0) (Some 1) plain_event = Inl ZeroDivisionError \<and>
   keep_record rt_insertion None (Some 1) plain_event = Inl TypeError \<and>
   dget reply_event ''time_us'' JNull = JNull \<and>
   keep_record rt_insertion (Some 4) (Some 1) reply_event = Inl TypeError"
  by code_simp

text \<open>An exception of the condition ends \<open>run\<close>: the record is neither kept nor dropped.\<close>

lemma run_step_raises:
  "keep_record rt (modulo tc) (shard tc) rec = Inl e \<Longrightarrow> run_step rt store tc rec = Some (Inl e)"
  by (simp add: run_step_def)

text \<open>
  Where the condition does not raise: with \<open>modulo\<close> and \<open>shard\<close> both zero or unset every
  event is kept, and with a positive \<open>modulo\<close> \<open>a\<close> and a non-negative \<open>shard\<close> \<open>b\<close> an event
  whose \<open>time_us\<close> is the int \<open>t\<close> is kept exactly when \<open>t mod a = b\<close>.
\<close>

lemma keep_record_cases:
  "(py_not m \<and> py_not s \<longrightarrow> keep_record rt m s rec = Inr True) \<and>
   (0 < a \<and> 0 \<le> b \<and> py_get rec ''time_us'' JNull = Inr (JInt t) \<longrightarrow>
      keep_record rt (Some a) (Some b) rec = Inr (t mod a = b))"
  by (auto simp: keep_record_def py_not_def int_mod_def)

text \<open>
  A kept record is appended to the buffer, a dropped one leaves the state as it is
  (shown where the buffer stays below the batch size).
\<close>

lemma run_step_keeps:
  assumes "keep_record rt (modulo tc) (shard tc) rec = Inr keep"
    and "length (buffer tc) + 1 < BATCH_SIZE"
  shows "run_step rt store tc rec =
           Some (Inr (if keep then tc\<lparr>buffer := buffer tc @ [rec]\<rparr> else tc))"
  using assms by (simp add: run_step_def)

section \<open>Properties of the bulk fetch: the remote calls\<close>


declare py_range.simps [simp del]

lemma py_range_length:
  "0 < step \<Longrightarrow> length (py_range i stop step) = (stop - i + (step - 1)) div step"
proof (induction i stop step rule: py_range.induct)
  case (1 i stop step)
  show ?case
  proof (cases "stop \<le> i")
    case True
    with 1(2) show ?thesis by (simp add: py_range.simps[of i])
  next
    case False
    with 1 have IH: "length (py_range (i + step) stop step) = (stop - (i + step) + (step - 1)) div step"
      by simp
    have "(stop - i + (step - 1)) div step = Suc ((stop - (i + step) + (step - 1)) div step)"
    proof (cases "stop - i < step")
      case True
      with False 1(2) have a: "(stop - i + (step - 1)) div step = 1"
        by (intro Euclidean_Rings.div_nat_eqI) auto
      from True have b: "(stop - (i + step) + (step - 1)) div step = 0" using 1(2) by simp
      show ?thesis unfolding a b by simp
    next
      case ge: False
      then have "stop - i + (step - 1) = (stop - (i + step) + (step - 1)) + step" by simp
      then show ?thesis using 1(2) by (simp only: div_add_self2)
    qed
    with False 1(2) IH show ?thesis by (simp add: py_range.simps[of i])
  qed
qed

lemma py_range_bound: "j \<in> set (py_range i stop step) \<Longrightarrow> j < stop"
proof (induction i stop step rule: py_range.induct)
  case (1 i stop step)
  then show ?case
    by (cases "step = 0 \<or> stop \<le> i") (auto simp: py_range.simps[of i])
qed

lemma concat_chunks_from:
  "0 < n \<Longrightarrow> concat (map (\<lambda>j. take n (drop j items)) (py_range i (length items) n)) = drop i items"
proof (induction i "length items" n rule: py_range.induct)
  case (1 i step)
  show ?case
  proof (cases "length items \<le> i")
    case True
    then show ?thesis by (simp add: py_range.simps[of i])
  next
    case False
    with 1 have "concat (map (\<lambda>j. take step (drop j items)) (py_range (i + step) (length items) step))
       = drop (i + step) items" by simp
    moreover have "take step (drop i items) @ drop (i + step) items = drop i items"
      by (metis add.commute append_take_drop_id drop_drop)
    ultimately show ?thesis using False 1(2) by (simp add: py_range.simps[of i])
  qed
qed

lemma chunks_of_length: "0 < n \<Longrightarrow> length (chunks_of n items) = (length items + (n - 1)) div n"
  by (simp add: chunks_of_def py_range_length)

lemma chunks_of_concat: "0 < n \<Longrightarrow> concat (chunks_of n items) = items"
  using concat_chunks_from[of n items 0] by (simp add: chunks_of_def)

lemma chunks_of_sizes: "c \<in> set (chunks_of n items) \<Longrightarrow> 0 < n \<Longrightarrow> c \<noteq> [] \<and> length c \<le> n"
  by (auto simp: chunks_of_def dest: py_range_bound)

lemma chunked_map_calls:
  "0 < n \<Longrightarrow> snd (chunked_map items n fetcher) =
     (if items = [] then [] else concat (map (\<lambda>sub. snd (fetcher sub)) (chunks_of n items)))"
  by (simp add: chunked_map_def chunks_of_def Let_def comp_def)

lemma concat_singletons: "concat (map (\<lambda>x. [x]) xs) = xs"
  by (induction xs) simp_all

lemma fetch_profiles_issued: "snd (fetch_profiles api sub) = [sub]"
  by (simp add: fetch_profiles_def call_get_profiles_def)

lemma fetch_posts_issued: "snd (fetch_posts api sub) = [sub]"
  by (simp add: fetch_posts_def call_get_posts_def)

lemma chunks_of_Nil: "chunks_of n [] = []"
  by (simp add: chunks_of_def py_range.simps[of 0])

lemma fetch_missing_users_calls: "snd (fetch_missing_users api ds) = chunks_of 25 ds"
  by (simp add: fetch_missing_users_def get_user_data_for_dids_def chunked_map_calls chunks_of_Nil
      fetch_profiles_issued concat_singletons)

lemma fetch_missing_posts_calls: "snd (fetch_missing_posts api us) = chunks_of 25 us"
  by (simp add: fetch_missing_posts_def hydrate_records_for_uris_def chunked_map_calls chunks_of_Nil
      fetch_posts_issued concat_singletons)

lemma fetch_missing_calls:
  "snd (fetch_missing api ds us) = \<lparr>profile_calls = chunks_of 25 ds, post_calls = chunks_of 25 us\<rparr>"
  by (simp add: fetch_missing_def Let_def fetch_missing_users_calls fetch_missing_posts_calls)

lemma hydrate_bulk_calls:
  assumes "collect_refs records = Inr r" "probe_caches rt r h = (md, mu, h1)"
    "py_choice (draw rt) apis = Inr api"
  shows "snd (snd (hydrate_bulk rt apis records h)) = snd (fetch_missing api md mu)"
  using assms unfolding hydrate_bulk_def
  by (auto split: sum.splits prod.splits)

lemma map_of_od_setitem: "map_of (od_setitem k v d) = (map_of d)(k \<mapsto> v)"
  by (induction d) (auto simp: fun_eq_iff)

lemma map_of_od_pop: "map_of (od_pop k d) = (map_of d)(k := None)"
  by (induction d) (auto simp: od_pop_def fun_eq_iff)

lemma keys_od_setitem: "fst ` set (od_setitem k v d) = insert k (fst ` set d)"
  by (induction d) auto

lemma LRUCache_get_value: "fst (LRUCache_get k c) = cached c k"
  by (simp add: LRUCache_get_def cached_def split: option.splits)

lemma LRUCache_get_map: "map_of (cache (snd (LRUCache_get k c))) = map_of (cache c)"
  by (auto simp: LRUCache_get_def map_of_od_setitem map_of_od_pop fun_eq_iff split: option.splits)

lemma LRUCache_get_cached: "cached (snd (LRUCache_get k c)) = cached c"
  by (simp add: cached_def fun_eq_iff LRUCache_get_map)

lemma LRUCache_get_max_size: "max_size (snd (LRUCache_get k c)) = max_size c"
  by (simp add: LRUCache_get_def split: option.splits)

lemma probe_cached: "cached (snd (probe ds c)) = cached c"
  by (induction ds arbitrary: c) (simp_all add: Let_def LRUCache_get_cached)

lemma probe_missing: "fst (probe ds c) = filter (\<lambda>d. cached c (py_key d) = None) ds"
  by (induction ds arbitrary: c) (simp_all add: Let_def LRUCache_get_cached LRUCache_get_value probe_cached)

lemma for_each_invariant:
  assumes run: "for_each body xs s = Inr s'" and init: "P s"
    and step: "\<And>x s s'. P s \<Longrightarrow> body x s = Inr s' \<Longrightarrow> P s'"
  shows "P s'"
  using run init
proof (induction xs arbitrary: s)
  case Nil
  then show ?case by simp
next
  case (Cons x xs)
  from Cons.prems(1) obtain s1 where b: "body x s = Inr s1" and r: "for_each body xs s1 = Inr s'"
    by (auto simp: seq_Inr_iff)
  from step[OF Cons.prems(2) b] have "P s1" .
  with Cons.IH[OF r] show ?case .
qed

lemma set_add_distinct:
  "distinct (map py_key s) \<Longrightarrow> set_add x s = Inr s' \<Longrightarrow> distinct (map py_key s')"
  by (auto simp: set_add_def split: if_splits)

lemma set_add_keys:
  "set_add x s = Inr s' \<Longrightarrow> py_key ` set s' = insert (py_key x) (py_key ` set s)"
  by (auto simp: set_add_def split: if_splits)

lemma set_update_distinct:
  "distinct (map py_key s) \<Longrightarrow> set_update s xs = Inr s' \<Longrightarrow> distinct (map py_key s')"
proof (induction xs arbitrary: s)
  case Nil
  from Nil(2) have "s' = s" by simp
  with Nil(1) show ?case by simp
next
  case (Cons x xs)
  from Cons.prems(2) obtain s1 where a: "set_add x s = Inr s1" and u: "set_update s1 xs = Inr s'"
    by (auto simp: seq_Inr_iff)
  have "distinct (map py_key s1)" by (rule set_add_distinct[OF Cons.prems(1) a])
  then show ?case using u by (rule Cons.IH)
qed

lemma set_update_keys:
  "set_update s xs = Inr s' \<Longrightarrow> py_key ` set s' = py_key ` set s \<union> py_key ` set xs"
proof (induction xs arbitrary: s)
  case Nil
  then show ?case by simp
next
  case (Cons x xs)
  from Cons.prems obtain s1 where a: "set_add x s = Inr s1" and u: "set_update s1 xs = Inr s'"
    by (auto simp: seq_Inr_iff)
  from Cons.IH[OF u] set_add_keys[OF a] show ?case by auto
qed

lemma collect_feature_distinct:
  "pair_distinct st \<Longrightarrow> collect_feature f st = Inr st' \<Longrightarrow> pair_distinct st'"
  unfolding collect_feature_def pair_distinct_def
  by (auto simp: seq_Inr_iff split: if_splits dest: set_add_distinct[rotated])

lemma collect_facet_distinct:
  assumes "pair_distinct st" and "collect_facet f st = Inr st'"
  shows "pair_distinct st'"
proof -
  from assms(2) obtain fs where "for_each collect_feature fs st = Inr st'"
    unfolding collect_facet_def by (auto simp: seq_Inr_iff)
  from this assms(1) show ?thesis
    by (rule for_each_invariant) (rule collect_feature_distinct)
qed

lemma collect_reply_uri_distinct:
  "distinct (map py_key uris) \<Longrightarrow> collect_reply_uri reply name uris = Inr uris' \<Longrightarrow>
     distinct (map py_key uris')"
  unfolding collect_reply_uri_def
  by (auto simp: seq_Inr_iff split: if_splits dest: set_add_distinct[rotated])

lemma collect_embed_inv:
  "refs_inv r \<Longrightarrow> collect_embed idx c_record r = Inr r' \<Longrightarrow> refs_inv r'"
  unfolding collect_embed_def refs_inv_def
  by (auto simp: seq_Inr_iff split: if_splits dest: set_add_distinct[rotated])

lemma collect_record_inv:
  assumes "refs_inv r" and "collect_record idx rec r = Inr r'"
  shows "refs_inv r'"
proof -
  from assms(2) obtain did dids c_record r1 fs st reply uris1 uris2 where
    dids: "(if truthy did then set_add did (all_dids r) else Inr (all_dids r)) = Inr dids"
    and emb: "collect_embed idx c_record (r\<lparr>all_dids := dids\<rparr>) = Inr r1"
    and loop: "for_each collect_facet fs ([], mention_dids_global r1) = Inr st"
    and u1: "collect_reply_uri reply ''parent'' (all_uris r1) = Inr uris1"
    and u2: "collect_reply_uri reply ''root'' uris1 = Inr uris2"
    and r': "r' = r1\<lparr>all_uris := uris2, mention_dids_global := snd st,
                record_mentions_map := od_setitem idx (fst st) (record_mentions_map r1)\<rparr>"
    unfolding collect_record_def seq_Inr_iff by blast
  from dids assms(1) have "refs_inv (r\<lparr>all_dids := dids\<rparr>)"
    by (auto simp: refs_inv_def split: if_splits dest: set_add_distinct[rotated])
  from collect_embed_inv[OF this emb] have i1: "refs_inv r1" .
  then have "pair_distinct ([], mention_dids_global r1)"
    by (simp add: refs_inv_def pair_distinct_def)
  with loop have "pair_distinct st"
    by (rule for_each_invariant) (rule collect_facet_distinct)
  moreover from i1 u1 u2 have "distinct (map py_key uris2)"
    by (auto simp: refs_inv_def dest!: collect_reply_uri_distinct[rotated])
  ultimately show ?thesis using i1 r' by (simp add: refs_inv_def pair_distinct_def)
qed

lemma collect_refs_inv:
  assumes "collect_refs records = Inr r"
  shows "refs_inv r"
proof -
  from assms obtain r0 dids where
    loop: "for_each (\<lambda>p. collect_record (fst p) (snd p)) (enumerate_from0 records) empty_refs = Inr r0"
    and upd: "set_update (all_dids r0) (mention_dids_global r0) = Inr dids"
    and r: "r = r0\<lparr>all_dids := dids\<rparr>"
    unfolding collect_refs_def seq_Inr_iff by blast
  have "refs_inv empty_refs" by (simp add: refs_inv_def empty_refs_def)
  with loop have "refs_inv r0"
    by (rule for_each_invariant) (rule collect_record_inv)
  with upd r show ?thesis by (auto simp: refs_inv_def dest: set_update_distinct[rotated])
qed

lemma example_phase1:
  "collect_refs example_batch = Inr example_refs"
  "probe_caches rt_insertion example_refs (empty_caches 5) =
     ([JStr ''D1'', JStr ''D2''],
      [JStr ''at://Z/c/q'', JStr ''at://X/c/p'', JStr ''at://Y/c/r''], empty_caches 5)"
  by code_simp+

section \<open>Properties of a failed bulk fetch\<close>


lemma probe_caches_cached:
  assumes "probe_caches rt r h = (md, mu, h1)"
  shows "cached (user_cache h1) = cached (user_cache h)"
    and "cached (post_cache h1) = cached (post_cache h)"
  using assms by (auto simp: probe_caches_def Let_def probe_cached)

lemma fetch_missing_raises:
  assumes "fst (fetch_missing_users api md) = Inl e1 \<or> fst (fetch_missing_posts api mu) = Inl e2"
  shows "\<exists>e. fst (fetch_missing api md mu) = Inl e"
  using assms
  by (cases "fst (fetch_missing_users api md)") (auto simp: fetch_missing_def Let_def)

text \<open>
  Claim C5. Let phase 1 succeed, let the probe of phase 2 leave the caches \<open>h1\<close>, and
  let the bulk call for the profiles or the one for the posts raise. Then \<open>hydrate_bulk\<close>
  raises and leaves the caches \<open>h1\<close>, the caches of the probe, which store what they
  stored before it; and \<open>_hydrate_and_release\<close> raises, leaves the same caches and has
  released one permit: the count of free permits is the count before \<open>acquire\<close> took
  the batch's permit.
\<close>

theorem fetch_failure:
  assumes "collect_refs records = Inr r"
    and "probe_caches rt r (hydration tc) = (missing_dids, missing_uris, h1)"
    and "py_choice (draw rt) (bluesky_clients tc) = Inr api"
    and "fst (fetch_missing_users api missing_dids) = Inl e1 \<or>
         fst (fetch_missing_posts api missing_uris) = Inl e2"
  shows "\<exists>e cs. hydrate_bulk rt (bluesky_clients tc) records (hydration tc) = (Inl e, h1, cs) \<and>
           hydrate_and_release rt store records tc =
             (Inl e, tc\<lparr>hydration := h1, semaphore := semaphore tc + 1\<rparr>, cs) \<and>
           cached (user_cache h1) = cached (user_cache (hydration tc)) \<and>
           cached (post_cache h1) = cached (post_cache (hydration tc)) \<and>
           (\<forall>n. acquire n = Some (semaphore tc) \<longrightarrow> semaphore tc + 1 = n)"
proof -
  from fetch_missing_raises[OF assms(4)] obtain e cs where
    f: "fetch_missing api missing_dids missing_uris = (Inl e, cs)"
    by (cases "fetch_missing api missing_dids missing_uris") auto
  with assms(1-3) have hb: "hydrate_bulk rt (bluesky_clients tc) records (hydration tc) = (Inl e, h1, cs)"
    by (simp add: hydrate_bulk_def)
  then have hr: "hydrate_and_release rt store records tc =
             (Inl e, tc\<lparr>hydration := h1, semaphore := semaphore tc + 1\<rparr>, cs)"
    by (simp add: hydrate_and_release_def)
  have acq: "\<forall>n. acquire n = Some (semaphore tc) \<longrightarrow> semaphore tc + 1 = n"
    by (auto simp: acquire_def split: if_splits)
  from hb hr acq probe_caches_cached[OF assms(2)] show ?thesis by blast
qed

lemma example_failure:
  "probe_caches rt_insertion example_refs (hydration example_charger) =
     ([JStr ''D1'', JStr ''D2''],
      [JStr ''at://Z/c/q'', JStr ''at://X/c/p'', JStr ''at://Y/c/r''], empty_caches 5)"
  "fst (fetch_missing_users failing_api [JStr ''D1'', JStr ''D2'']) = Inl RemoteError"
  "acquire 100 = Some (semaphore example_charger)"
  by code_simp+

lemma example_choice:
  "py_choice (draw rt_insertion) (bluesky_clients example_charger) = Inr failing_api"
  by (simp add: py_choice_def example_charger_def)

theorem fetch_failure_witness:
  "collect_refs example_batch = Inr example_refs \<and>
   probe_caches rt_insertion example_refs (hydration example_charger) =
     ([JStr ''D1'', JStr ''D2''],
      [JStr ''at://Z/c/q'', JStr ''at://X/c/p'', JStr ''at://Y/c/r''], empty_caches 5) \<and>
   py_choice (draw rt_insertion) (bluesky_clients example_charger) = Inr failing_api \<and>
   fst (fetch_missing_users failing_api [JStr ''D1'', JStr ''D2'']) = Inl RemoteError \<and>
   (\<exists>e cs. hydrate_and_release rt_insertion store_ok example_batch example_charger =
     (Inl e, example_charger\<lparr>hydration := empty_caches 5, semaphore := 100\<rparr>, cs)) \<and>
   acquire 100 = Some (semaphore example_charger)"
proof -
  have "fst (fetch_missing_users failing_api [JStr ''D1'', JStr ''D2'']) = Inl RemoteError \<or>
        fst (fetch_missing_posts failing_api
          [JStr ''at://Z/c/q'', JStr ''at://X/c/p'', JStr ''at://Y/c/r'']) = Inl RemoteError"
    using example_failure(2) by (rule disjI1)
  note fetch_failure[OF example_phase1(1) example_failure(1) example_choice this, of store_ok]
  then obtain e cs where
    "hydrate_and_release rt_insertion store_ok example_batch example_charger =
       (Inl e, example_charger\<lparr>hydration := empty_caches 5,
          semaphore := semaphore example_charger + 1\<rparr>, cs)"
    by blast
  moreover have "semaphore example_charger + 1 = 100" by (simp add: example_charger_def)
  ultimately have rel: "\<exists>e cs. hydrate_and_release rt_insertion store_ok example_batch example_charger =
     (Inl e, example_charger\<lparr>hydration := empty_caches 5, semaphore := 100\<rparr>, cs)"
    by (simp only:) blast
  show ?thesis
    by (intro conjI) (fact example_phase1(1) example_failure example_choice rel)+
qed

section \<open>Properties of phase 1: what is collected\<close>


lemma py_get_dget_eq: "py_get x key dflt = Inr v \<Longrightarrow> dget x key dflt = v"
  by (simp add: dget_def)

lemma py_iter_items: "py_iter x = Inr xs \<Longrightarrow> list_items x = xs"
  by (simp add: list_items_def)

lemma for_each_keys:
  assumes step: "\<And>x s s'. body x s = Inr s' \<Longrightarrow> K s' = K s \<union> G x"
  shows "for_each body xs s = Inr s' \<Longrightarrow> K s' = K s \<union> (\<Union>x\<in>set xs. G x)"
proof (induction xs arbitrary: s)
  case Nil
  then show ?case by simp
next
  case (Cons x xs)
  from Cons.prems obtain s1 where b: "body x s = Inr s1" and r: "for_each body xs s1 = Inr s'"
    by (auto simp: seq_Inr_iff)
  from Cons.IH[OF r] step[OF b] show ?case by auto
qed

lemma keys_concat: "(\<Union>x\<in>set xs. py_key ` set (g x)) = py_key ` set (concat (map g xs))"
  by auto

lemma set_add_truthy_keys:
  "(if truthy x then set_add x s else Inr s) = Inr s' \<Longrightarrow>
     py_key ` set s' = py_key ` set s \<union> py_key ` set (filter truthy [x])"
  by (auto split: if_splits dest!: set_add_keys)

lemma collect_feature_keys_both:
  assumes "collect_feature f st = Inr st'"
  shows "py_key ` set (fst st') = py_key ` set (fst st) \<union> py_key ` set (feature_mention f) \<and>
         py_key ` set (snd st') = py_key ` set (snd st) \<union> py_key ` set (feature_mention f)"
proof -
  from assms obtain ty where ty: "py_get f ''$type'' JNull = Inr ty"
    unfolding collect_feature_def seq_Inr_iff by blast
  then have dty: "dget f ''$type'' JNull = ty" by (rule py_get_dget_eq)
  show ?thesis
  proof (cases "ty = JStr ''app.bsky.richtext.facet#mention''")
    case False
    with assms ty dty show ?thesis
      by (auto simp: collect_feature_def feature_mention_def)
  next
    case True
    with assms ty obtain d where d: "py_get f ''did'' JNull = Inr d"
      and rest: "(if truthy d then seq (set_add d (fst st)) (\<lambda>rec_dids.
             seq (set_add d (snd st)) (\<lambda>global. Inr (rec_dids, global))) else Inr st) = Inr st'"
      unfolding collect_feature_def by (auto simp: seq_Inr_iff)
    from d have dd: "dget f ''did'' JNull = d" by (rule py_get_dget_eq)
    show ?thesis
    proof (cases "truthy d")
      case False
      with rest True dty dd show ?thesis
        by (auto simp: feature_mention_def)
    next
      case t: True
      with rest obtain a b where a: "set_add d (fst st) = Inr a" and b: "set_add d (snd st) = Inr b"
        and st': "st' = (a, b)"
        by (auto simp: seq_Inr_iff)
      from t True dty dd have fm: "feature_mention f = [d]" by (simp add: feature_mention_def)
      from set_add_keys[OF a] set_add_keys[OF b] st' fm
      show ?thesis by auto
    qed
  qed
qed

lemma collect_feature_keys:
  assumes "collect_feature f st = Inr st'"
  shows "py_key ` set (fst st') = py_key ` set (fst st) \<union> py_key ` set (feature_mention f)"
    and "py_key ` set (snd st') = py_key ` set (snd st) \<union> py_key ` set (feature_mention f)"
proof -
  note both = collect_feature_keys_both[OF assms]
  from both show "py_key ` set (fst st') = py_key ` set (fst st) \<union> py_key ` set (feature_mention f)"
    by (rule conjunct1)
  from both show "py_key ` set (snd st') = py_key ` set (snd st) \<union> py_key ` set (feature_mention f)"
    by (rule conjunct2)
qed

lemma collect_facet_keys:
  assumes "collect_facet facet st = Inr st'"
  shows "py_key ` set (fst st') = py_key ` set (fst st) \<union> py_key ` set (facet_mentions facet)"
    and "py_key ` set (snd st') = py_key ` set (snd st) \<union> py_key ` set (facet_mentions facet)"
proof -
  from assms obtain features fs where g: "py_get facet ''features'' (JArr []) = Inr features"
    and it: "py_iter features = Inr fs" and loop: "for_each collect_feature fs st = Inr st'"
    unfolding collect_facet_def seq_Inr_iff by blast
  from g it have fm: "facet_mentions facet = concat (map feature_mention fs)"
    by (simp add: facet_mentions_def py_get_dget_eq py_iter_items)
  from for_each_keys[where K = "\<lambda>st. py_key ` set (fst st)" and G = "\<lambda>f. py_key ` set (feature_mention f)",
      OF collect_feature_keys(1) loop]
  show "py_key ` set (fst st') = py_key ` set (fst st) \<union> py_key ` set (facet_mentions facet)"
    unfolding fm keys_concat .
  from for_each_keys[where K = "\<lambda>st. py_key ` set (snd st)" and G = "\<lambda>f. py_key ` set (feature_mention f)",
      OF collect_feature_keys(2) loop]
  show "py_key ` set (snd st') = py_key ` set (snd st) \<union> py_key ` set (facet_mentions facet)"
    unfolding fm keys_concat .
qed

lemma collect_reply_uri_keys:
  assumes "collect_reply_uri reply name uris = Inr uris'"
  shows "py_key ` set uris' = py_key ` set uris \<union>
           py_key ` set (filter truthy [dget (dget reply name (JObj [])) ''uri'' JNull])"
proof -
  from assms obtain node uri where n: "py_get reply name (JObj []) = Inr node"
    and u: "py_get node ''uri'' JNull = Inr uri"
    and a: "(if truthy uri then set_add uri uris else Inr uris) = Inr uris'"
    unfolding collect_reply_uri_def seq_Inr_iff by blast
  from n u have "dget (dget reply name (JObj [])) ''uri'' JNull = uri"
    by (simp add: py_get_dget_eq)
  with set_add_truthy_keys[OF a] show ?thesis by simp
qed

lemma collect_embed_result:
  assumes "collect_embed idx c_record r = Inr r'" and "event_record rec = c_record"
  shows "\<exists>uris. r' = r\<lparr>all_uris := uris,
            record_embed_map := (if truthy (quote_uri_of rec)
               then od_setitem idx (quote_uri_of rec) (record_embed_map r)
               else record_embed_map r)\<rparr> \<and>
          py_key ` set uris = py_key ` set (all_uris r) \<union>
            py_key ` set (filter truthy [quote_uri_of rec])"
proof -
  from assms(1) obtain embed ty where e: "py_get c_record ''embed'' (JObj []) = Inr embed"
    and ty: "py_get embed ''$type'' JNull = Inr ty"
    unfolding collect_embed_def seq_Inr_iff by blast
  from e assms(2) have ee: "event_embed rec = embed" by (simp add: event_embed_def py_get_dget_eq)
  from ty have dty: "dget embed ''$type'' JNull = ty" by (rule py_get_dget_eq)
  show ?thesis
  proof (cases "ty = JStr ''app.bsky.embed.record''")
    case False
    with dty ee have q: "quote_uri_of rec = JNull" by (simp add: quote_uri_of_def)
    from False assms(1) e ty have "r' = r" by (simp add: collect_embed_def)
    with q show ?thesis by (intro exI[of _ "all_uris r"]) simp
  next
    case True
    with assms(1) e ty obtain embedded quote_uri where em: "py_get embed ''record'' (JObj []) = Inr embedded"
      and qu: "py_get embedded ''uri'' JNull = Inr quote_uri"
      and rest: "(if truthy quote_uri then
             seq (set_add quote_uri (all_uris r)) (\<lambda>uris.
               Inr (r\<lparr>all_uris := uris,
                      record_embed_map := od_setitem idx quote_uri (record_embed_map r)\<rparr>))
           else Inr r) = Inr r'"
      unfolding collect_embed_def by (auto simp: seq_Inr_iff)
    from True dty ee em qu have q: "quote_uri_of rec = quote_uri"
      by (simp add: quote_uri_of_def py_get_dget_eq)
    show ?thesis
    proof (cases "truthy quote_uri")
      case False
      with rest have "r' = r" by simp
      with q False show ?thesis by (intro exI[of _ "all_uris r"]) simp
    next
      case t: True
      with rest obtain uris where a: "set_add quote_uri (all_uris r) = Inr uris"
        and r': "r' = r\<lparr>all_uris := uris,
                      record_embed_map := od_setitem idx quote_uri (record_embed_map r)\<rparr>"
        by (auto simp: seq_Inr_iff)
      from set_add_keys[OF a] t q r' show ?thesis by (intro exI[of _ uris]) simp
    qed
  qed
qed

lemma collect_record_result:
  assumes "collect_record idx rec r = Inr r'"
  shows "py_key ` set (all_dids r') =
            py_key ` set (all_dids r) \<union> py_key ` set (filter truthy [dget rec ''did'' JNull])"
    and "py_key ` set (all_uris r') = py_key ` set (all_uris r) \<union> py_key ` set (event_uris rec)"
    and "py_key ` set (mention_dids_global r') =
            py_key ` set (mention_dids_global r) \<union> py_key ` set (event_mentions rec)"
    and "\<exists>ms. map_of (record_mentions_map r') = (map_of (record_mentions_map r))(idx \<mapsto> ms) \<and>
           py_key ` set ms = py_key ` set (event_mentions rec)"
    and "map_of (record_embed_map r') = (if truthy (quote_uri_of rec)
               then (map_of (record_embed_map r))(idx \<mapsto> quote_uri_of rec)
               else map_of (record_embed_map r))"
proof -
  from assms obtain did dids commit c_record r1 facets fs st reply uris1 uris2 where
    g: "py_get rec ''did'' JNull = Inr did"
       "py_get rec ''commit'' (JObj []) = Inr commit"
       "py_get commit ''record'' (JObj []) = Inr c_record"
       "py_get c_record ''facets'' (JArr []) = Inr facets"
       "py_iter facets = Inr fs"
       "py_get c_record ''reply'' (JObj []) = Inr reply"
    and dids: "(if truthy did then set_add did (all_dids r) else Inr (all_dids r)) = Inr dids"
    and emb: "collect_embed idx c_record (r\<lparr>all_dids := dids\<rparr>) = Inr r1"
    and loop: "for_each collect_facet fs ([], mention_dids_global r1) = Inr st"
    and u1: "collect_reply_uri reply ''parent'' (all_uris r1) = Inr uris1"
    and u2: "collect_reply_uri reply ''root'' uris1 = Inr uris2"
    and r': "r' = r1\<lparr>all_uris := uris2, mention_dids_global := snd st,
                record_mentions_map := od_setitem idx (fst st) (record_mentions_map r1)\<rparr>"
    unfolding collect_record_def seq_Inr_iff by blast
  from g have ev: "dget rec ''did'' JNull = did" "event_record rec = c_record"
    "event_reply rec = reply"
    "event_mentions rec = concat (map facet_mentions fs)"
    by (simp_all add: event_commit_def event_record_def event_reply_def event_mentions_def
        py_get_dget_eq py_iter_items)
  from collect_embed_result[OF emb ev(2)] obtain uris0 where
    r1raw: "r1 = (r\<lparr>all_dids := dids\<rparr>)\<lparr>all_uris := uris0,
            record_embed_map := (if truthy (quote_uri_of rec)
               then od_setitem idx (quote_uri_of rec) (record_embed_map (r\<lparr>all_dids := dids\<rparr>))
               else record_embed_map (r\<lparr>all_dids := dids\<rparr>))\<rparr>"
    and k0raw: "py_key ` set uris0 = py_key ` set (all_uris (r\<lparr>all_dids := dids\<rparr>)) \<union>
            py_key ` set (filter truthy [quote_uri_of rec])"
    by blast
  from k0raw have k0: "py_key ` set uris0 = py_key ` set (all_uris r) \<union>
            py_key ` set (filter truthy [quote_uri_of rec])" by simp
  from r1raw have r1: "all_dids r1 = dids" "all_uris r1 = uris0"
    "mention_dids_global r1 = mention_dids_global r"
    "record_mentions_map r1 = record_mentions_map r"
    "record_embed_map r1 = (if truthy (quote_uri_of rec)
               then od_setitem idx (quote_uri_of rec) (record_embed_map r)
               else record_embed_map r)"
    by simp_all
  have kd: "py_key ` set dids = py_key ` set (all_dids r) \<union> py_key ` set (filter truthy [did])"
    by (rule set_add_truthy_keys[OF dids])
  from for_each_keys[where K = "\<lambda>st. py_key ` set (fst st)" and G = "\<lambda>f. py_key ` set (facet_mentions f)",
      OF collect_facet_keys(1) loop]
  have km: "py_key ` set (fst st) = py_key ` set (event_mentions rec)"
    unfolding ev(4) keys_concat by simp
  from for_each_keys[where K = "\<lambda>st. py_key ` set (snd st)" and G = "\<lambda>f. py_key ` set (facet_mentions f)",
      OF collect_facet_keys(2) loop]
  have kg: "py_key ` set (snd st) = py_key ` set (mention_dids_global r1) \<union> py_key ` set (event_mentions rec)"
    unfolding ev(4) keys_concat by simp
  from collect_reply_uri_keys[OF u1] collect_reply_uri_keys[OF u2] k0 r1
  have ku: "py_key ` set uris2 = py_key ` set (all_uris r) \<union> py_key ` set (event_uris rec)"
    unfolding event_uris_def reply_uri_of_def ev(3) by auto
  show "py_key ` set (all_dids r') =
            py_key ` set (all_dids r) \<union> py_key ` set (filter truthy [dget rec ''did'' JNull])"
    using kd r' r1 ev(1) by simp
  show "py_key ` set (all_uris r') = py_key ` set (all_uris r) \<union> py_key ` set (event_uris rec)"
    using ku r' by simp
  show "py_key ` set (mention_dids_global r') =
            py_key ` set (mention_dids_global r) \<union> py_key ` set (event_mentions rec)"
    using kg r' r1 by simp
  have "map_of (record_mentions_map r') = (map_of (record_mentions_map r))(idx \<mapsto> fst st)"
    using r' r1 by (simp add: map_of_od_setitem)
  with km show "\<exists>ms. map_of (record_mentions_map r') = (map_of (record_mentions_map r))(idx \<mapsto> ms) \<and>
           py_key ` set ms = py_key ` set (event_mentions rec)"
    by (intro exI[of _ "fst st"] conjI)
  show "map_of (record_embed_map r') = (if truthy (quote_uri_of rec)
               then (map_of (record_embed_map r))(idx \<mapsto> quote_uri_of rec)
               else map_of (record_embed_map r))"
    using r' r1 by (simp add: map_of_od_setitem)
qed

lemma collect_loop_frame:
  "for_each (\<lambda>p. collect_record (fst p) (snd p)) ps r0 = Inr r \<Longrightarrow> i \<notin> fst ` set ps \<Longrightarrow>
     map_of (record_mentions_map r) i = map_of (record_mentions_map r0) i \<and>
     map_of (record_embed_map r) i = map_of (record_embed_map r0) i"
proof (induction ps arbitrary: r0)
  case Nil
  then show ?case by simp
next
  case (Cons p ps)
  from Cons.prems(1) obtain r1 where s: "collect_record (fst p) (snd p) r0 = Inr r1"
    and l: "for_each (\<lambda>p. collect_record (fst p) (snd p)) ps r1 = Inr r"
    by (auto simp: seq_Inr_iff)
  from Cons.prems(2) have ne: "fst p \<noteq> i" and out: "i \<notin> fst ` set ps" by auto
  from collect_record_result(4,5)[OF s] ne
  have "map_of (record_mentions_map r1) i = map_of (record_mentions_map r0) i"
    "map_of (record_embed_map r1) i = map_of (record_embed_map r0) i"
    by auto
  with Cons.IH[OF l out] show ?case by simp
qed

lemma collect_loop_entry:
  "for_each (\<lambda>p. collect_record (fst p) (snd p)) ps r0 = Inr r \<Longrightarrow> distinct (map fst ps) \<Longrightarrow>
   (i, rec) \<in> set ps \<Longrightarrow>
     (\<exists>ms. map_of (record_mentions_map r) i = Some ms \<and>
        py_key ` set ms = py_key ` set (event_mentions rec)) \<and>
     map_of (record_embed_map r) i =
       (if truthy (quote_uri_of rec) then Some (quote_uri_of rec)
        else map_of (record_embed_map r0) i)"
proof (induction ps arbitrary: r0)
  case Nil
  then show ?case by simp
next
  case (Cons p ps)
  from Cons.prems(1) obtain r1 where s: "collect_record (fst p) (snd p) r0 = Inr r1"
    and l: "for_each (\<lambda>p. collect_record (fst p) (snd p)) ps r1 = Inr r"
    by (auto simp: seq_Inr_iff)
  from Cons.prems(2) have dist: "distinct (map fst ps)" and fresh: "fst p \<notin> fst ` set ps" by auto
  show ?case
  proof (cases "p = (i, rec)")
    case True
    with fresh have out: "i \<notin> fst ` set ps" by simp
    from collect_record_result(4,5)[OF s] True obtain ms where
      "map_of (record_mentions_map r1) i = Some ms"
      "py_key ` set ms = py_key ` set (event_mentions rec)"
      "map_of (record_embed_map r1) i =
         (if truthy (quote_uri_of rec) then Some (quote_uri_of rec)
          else map_of (record_embed_map r0) i)"
      by auto
    with collect_loop_frame[OF l out] show ?thesis by auto
  next
    case False
    with Cons.prems(3) have mem: "(i, rec) \<in> set ps" by simp
    with fresh have ne: "fst p \<noteq> i" by (metis fst_conv image_eqI)
    with collect_record_result(5)[OF s]
    have "map_of (record_embed_map r1) i = map_of (record_embed_map r0) i" by auto
    with Cons.IH[OF l dist mem] show ?thesis by simp
  qed
qed

lemma collect_loop_keys:
  assumes "for_each (\<lambda>p. collect_record (fst p) (snd p)) ps r0 = Inr r"
  shows "py_key ` set (all_dids r) = py_key ` set (all_dids r0) \<union>
        (\<Union>p\<in>set ps. py_key ` set (filter truthy [dget (snd p) ''did'' JNull]))"
    and "py_key ` set (all_uris r) = py_key ` set (all_uris r0) \<union>
        (\<Union>p\<in>set ps. py_key ` set (event_uris (snd p)))"
    and "py_key ` set (mention_dids_global r) = py_key ` set (mention_dids_global r0) \<union>
        (\<Union>p\<in>set ps. py_key ` set (event_mentions (snd p)))"
proof -
  show "py_key ` set (all_dids r) = py_key ` set (all_dids r0) \<union>
        (\<Union>p\<in>set ps. py_key ` set (filter truthy [dget (snd p) ''did'' JNull]))"
  proof (rule for_each_keys[where K = "\<lambda>r. py_key ` set (all_dids r)"
        and G = "\<lambda>p. py_key ` set (filter truthy [dget (snd p) ''did'' JNull])", OF _ assms])
    fix x s s' assume "collect_record (fst x) (snd x) s = Inr s'"
    then show "py_key ` set (all_dids s') = py_key ` set (all_dids s) \<union>
        py_key ` set (filter truthy [dget (snd x) ''did'' JNull])"
      by (rule collect_record_result(1))
  qed
  show "py_key ` set (all_uris r) = py_key ` set (all_uris r0) \<union>
        (\<Union>p\<in>set ps. py_key ` set (event_uris (snd p)))"
  proof (rule for_each_keys[where K = "\<lambda>r. py_key ` set (all_uris r)"
        and G = "\<lambda>p. py_key ` set (event_uris (snd p))", OF _ assms])
    fix x s s' assume "collect_record (fst x) (snd x) s = Inr s'"
    then show "py_key ` set (all_uris s') = py_key ` set (all_uris s) \<union>
        py_key ` set (event_uris (snd x))"
      by (rule collect_record_result(2))
  qed
  show "py_key ` set (mention_dids_global r) = py_key ` set (mention_dids_global r0) \<union>
        (\<Union>p\<in>set ps. py_key ` set (event_mentions (snd p)))"
  proof (rule for_each_keys[where K = "\<lambda>r. py_key ` set (mention_dids_global r)"
        and G = "\<lambda>p. py_key ` set (event_mentions (snd p))", OF _ assms])
    fix x s s' assume "collect_record (fst x) (snd x) s = Inr s'"
    then show "py_key ` set (mention_dids_global s') = py_key ` set (mention_dids_global s) \<union>
        py_key ` set (event_mentions (snd x))"
      by (rule collect_record_result(3))
  qed
qed

lemma enumerate_from0_props:
  "map snd (enumerate_from0 xs) = xs" "map fst (enumerate_from0 xs) = [0..<length xs]"
  "i < length xs \<Longrightarrow> (i, xs ! i) \<in> set (enumerate_from0 xs)"
proof -
  show "map snd (enumerate_from0 xs) = xs" "map fst (enumerate_from0 xs) = [0..<length xs]"
    by (simp_all add: enumerate_from0_def)
  assume "i < length xs"
  then have "enumerate_from0 xs ! i = (i, xs ! i)" "i < length (enumerate_from0 xs)"
    by (simp_all add: enumerate_from0_def)
  then show "(i, xs ! i) \<in> set (enumerate_from0 xs)" by (metis nth_mem)
qed

lemma Union_enumerate:
  "(\<Union>p\<in>set (enumerate_from0 xs). g (snd p)) = (\<Union>x\<in>set xs. g x)"
proof -
  have "(\<Union>p\<in>set (enumerate_from0 xs). g (snd p)) = (\<Union>x\<in>set (map snd (enumerate_from0 xs)). g x)"
    by auto
  then show ?thesis by (simp only: enumerate_from0_props(1))
qed

lemma collect_refs_result:
  assumes "collect_refs records = Inr r"
  shows "py_key ` set (all_dids r) = (\<Union>rec\<in>set records. py_key ` set (event_dids rec))"
    and "py_key ` set (all_uris r) = (\<Union>rec\<in>set records. py_key ` set (event_uris rec))"
    and "i < length records \<Longrightarrow>
           \<exists>ms. map_of (record_mentions_map r) i = Some ms \<and>
              py_key ` set ms = py_key ` set (event_mentions (records ! i))"
    and "i < length records \<Longrightarrow>
           map_of (record_embed_map r) i =
             (if truthy (quote_uri_of (records ! i)) then Some (quote_uri_of (records ! i)) else None)"
proof -
  from assms obtain r0 dids where
    loop: "for_each (\<lambda>p. collect_record (fst p) (snd p)) (enumerate_from0 records) empty_refs = Inr r0"
    and upd: "set_update (all_dids r0) (mention_dids_global r0) = Inr dids"
    and r: "r = r0\<lparr>all_dids := dids\<rparr>"
    unfolding collect_refs_def seq_Inr_iff by blast
  note k = collect_loop_keys[OF loop]
  have e1: "(\<Union>p\<in>set (enumerate_from0 records). py_key ` set (filter truthy [dget (snd p) ''did'' JNull]))
      = (\<Union>rec\<in>set records. py_key ` set (filter truthy [dget rec ''did'' JNull]))"
    by (rule Union_enumerate[where g = "\<lambda>rec. py_key ` set (filter truthy [dget rec ''did'' JNull])"])
  have e2: "(\<Union>p\<in>set (enumerate_from0 records). py_key ` set (event_uris (snd p)))
      = (\<Union>rec\<in>set records. py_key ` set (event_uris rec))"
    by (rule Union_enumerate[where g = "\<lambda>rec. py_key ` set (event_uris rec)"])
  have e3: "(\<Union>p\<in>set (enumerate_from0 records). py_key ` set (event_mentions (snd p)))
      = (\<Union>rec\<in>set records. py_key ` set (event_mentions rec))"
    by (rule Union_enumerate[where g = "\<lambda>rec. py_key ` set (event_mentions rec)"])
  have k1: "py_key ` set (all_dids r0) =
      (\<Union>rec\<in>set records. py_key ` set (filter truthy [dget rec ''did'' JNull]))"
    using k(1) unfolding e1 by (simp add: empty_refs_def)
  have k2: "py_key ` set (all_uris r0) = (\<Union>rec\<in>set records. py_key ` set (event_uris rec))"
    using k(2) unfolding e2 by (simp add: empty_refs_def)
  have k3: "py_key ` set (mention_dids_global r0) =
      (\<Union>rec\<in>set records. py_key ` set (event_mentions rec))"
    using k(3) unfolding e3 by (simp add: empty_refs_def)
  have "py_key ` set dids = py_key ` set (all_dids r0) \<union> py_key ` set (mention_dids_global r0)"
    by (rule set_update_keys[OF upd])
  also have "\<dots> = (\<Union>rec\<in>set records. py_key ` set (filter truthy [dget rec ''did'' JNull])) \<union>
       (\<Union>rec\<in>set records. py_key ` set (event_mentions rec))"
    by (simp only: k1 k3)
  also have "\<dots> = (\<Union>rec\<in>set records. py_key ` set (event_dids rec))"
    by (auto simp: event_dids_def)
  finally show "py_key ` set (all_dids r) = (\<Union>rec\<in>set records. py_key ` set (event_dids rec))"
    using r by simp
  from k2 r show "py_key ` set (all_uris r) = (\<Union>rec\<in>set records. py_key ` set (event_uris rec))"
    by simp
  have dist: "distinct (map fst (enumerate_from0 records))"
    by (simp add: enumerate_from0_props(2))
  assume i: "i < length records"
  note e = collect_loop_entry[OF loop dist enumerate_from0_props(3)[OF i]]
  from e r show "\<exists>ms. map_of (record_mentions_map r) i = Some ms \<and>
              py_key ` set ms = py_key ` set (event_mentions (records ! i))"
    by simp
  from e r show "map_of (record_embed_map r) i =
             (if truthy (quote_uri_of (records ! i)) then Some (quote_uri_of (records ! i)) else None)"
    by (simp add: empty_refs_def)
qed

lemma is_dict_get: "is_dict x \<Longrightarrow> py_get x key dflt = Inr (dget x key dflt)"
  by (cases x) (simp_all add: dget_def)

lemma is_list_iter: "is_list x \<Longrightarrow> py_iter x = Inr (list_items x)"
  by (cases x) (simp_all add: list_items_def)

lemma set_add_hashable: "hashable x \<Longrightarrow> \<exists>s'. set_add x s = Inr s'"
  by (simp add: set_add_def)

lemma for_each_total:
  assumes "\<And>x s. x \<in> set xs \<Longrightarrow> \<exists>s'. body x s = Inr s'"
  shows "\<exists>s'. for_each body xs s = Inr s'"
  using assms
proof (induction xs arbitrary: s)
  case Nil
  then show ?case by simp
next
  case (Cons x xs)
  from Cons.prems[of x s] obtain s1 where b: "body x s = Inr s1" by auto
  from Cons.IH[of s1] Cons.prems obtain s' where "for_each body xs s1 = Inr s'" by auto
  with b show ?case by simp
qed

lemma collect_feature_total:
  assumes "feature_ok f"
  shows "\<exists>st'. collect_feature f st = Inr st'"
proof -
  from assms have d: "is_dict f" and h: "list_all hashable (feature_mention f)"
    by (simp_all add: feature_ok_def)
  show ?thesis
  proof (cases "dget f ''$type'' JNull = JStr ''app.bsky.richtext.facet#mention'' \<and>
      truthy (dget f ''did'' JNull)")
    case True
    with h have "hashable (dget f ''did'' JNull)" by (simp add: feature_mention_def)
    from set_add_hashable[OF this, of "fst st"] set_add_hashable[OF this, of "snd st"]
    obtain a b where "set_add (dget f ''did'' JNull) (fst st) = Inr a"
      "set_add (dget f ''did'' JNull) (snd st) = Inr b"
      by auto
    with True d show ?thesis by (simp add: collect_feature_def is_dict_get)
  next
    case False
    with d show ?thesis by (auto simp: collect_feature_def is_dict_get)
  qed
qed

lemma collect_facet_total:
  assumes "facet_ok facet"
  shows "\<exists>st'. collect_facet facet st = Inr st'"
proof -
  from assms have d: "is_dict facet" and l: "is_list (dget facet ''features'' (JArr []))"
    and fs: "list_all feature_ok (list_items (dget facet ''features'' (JArr [])))"
    by (simp_all add: facet_ok_def)
  have "\<exists>st'. for_each collect_feature (list_items (dget facet ''features'' (JArr []))) st = Inr st'"
  proof (rule for_each_total)
    fix x s assume "x \<in> set (list_items (dget facet ''features'' (JArr [])))"
    with fs have "feature_ok x" by (simp add: list_all_iff)
    then show "\<exists>s'. collect_feature x s = Inr s'" by (rule collect_feature_total)
  qed
  with d l show ?thesis by (simp add: collect_facet_def is_dict_get is_list_iter)
qed

lemma truthy_add_total:
  "list_all hashable (filter truthy [x]) \<Longrightarrow> \<exists>s'. (if truthy x then set_add x s else Inr s) = Inr s'"
  by (auto simp: set_add_def split: if_splits)

lemma collect_reply_uri_total:
  assumes "is_dict reply" "is_dict (dget reply name (JObj []))"
    "list_all hashable (filter truthy [dget (dget reply name (JObj [])) ''uri'' JNull])"
  shows "\<exists>uris'. collect_reply_uri reply name uris = Inr uris'"
  using assms truthy_add_total[OF assms(3), of uris]
  by (simp add: collect_reply_uri_def is_dict_get)

lemma collect_embed_total:
  assumes "is_dict c_record" "is_dict (dget c_record ''embed'' (JObj []))"
    "dget (dget c_record ''embed'' (JObj [])) ''$type'' JNull = JStr ''app.bsky.embed.record'' \<longrightarrow>
       is_dict (dget (dget c_record ''embed'' (JObj [])) ''record'' (JObj [])) \<and>
       list_all hashable (filter truthy
         [dget (dget (dget c_record ''embed'' (JObj [])) ''record'' (JObj [])) ''uri'' JNull])"
  shows "\<exists>r'. collect_embed idx c_record r = Inr r'"
proof (cases "dget (dget c_record ''embed'' (JObj [])) ''$type'' JNull = JStr ''app.bsky.embed.record''")
  case False
  with assms(1,2) show ?thesis by (simp add: collect_embed_def is_dict_get)
next
  case True
  with assms(3) have d: "is_dict (dget (dget c_record ''embed'' (JObj [])) ''record'' (JObj []))"
    and h: "list_all hashable (filter truthy
         [dget (dget (dget c_record ''embed'' (JObj [])) ''record'' (JObj [])) ''uri'' JNull])"
    by simp_all
  from h have "truthy (dget (dget (dget c_record ''embed'' (JObj [])) ''record'' (JObj [])) ''uri'' JNull) \<Longrightarrow>
     \<exists>s'. set_add (dget (dget (dget c_record ''embed'' (JObj [])) ''record'' (JObj [])) ''uri'' JNull)
        (all_uris r) = Inr s'"
    by (simp add: set_add_def)
  with True assms(1,2) d show ?thesis
    by (auto simp: collect_embed_def is_dict_get)
qed

section \<open>Properties of the bulk fetch: the number of remote calls\<close>

text \<open>
  Claim C3. Let phase 1 succeed on the batch and let the pool hold a client. The keys
  of \<open>all_dids\<close> and \<open>all_uris\<close> are those of the DIDs and URIs the events of the batch
  refer to. \<open>missing_dids\<close> and \<open>missing_uris\<close>, the lists of the phase-2 probe, are the
  referenced DIDs and URIs for which the cache as it was before the probe returns
  \<open>None\<close>. The log of the remote calls the hydration issues holds
  \<open>(length missing_dids + 24) div 25\<close> profile calls and
  \<open>(length missing_uris + 24) div 25\<close> post calls, that is the lengths divided by 25 and
  rounded up; the calls carry the missing keys in order, each call at least one and at
  most 25 of them; where the iteration of a set yields each element once, no key is
  asked for twice. An empty list of keys gives an empty dict and no call.
\<close>

theorem remote_calls:
  assumes "collect_refs records = Inr r" and "api_clients \<noteq> []"
    and "probe_caches rt r h = (missing_dids, missing_uris, h1)"
    and "cs = snd (snd (hydrate_bulk rt api_clients records h))"
  shows "py_key ` set (all_dids r) = (\<Union>rec\<in>set records. py_key ` set (event_dids rec)) \<and>
         py_key ` set (all_uris r) = (\<Union>rec\<in>set records. py_key ` set (event_uris rec)) \<and>
         missing_dids = filter (\<lambda>d. cached (user_cache h) (py_key d) = None) (set_iter rt (all_dids r)) \<and>
         missing_uris = filter (\<lambda>u. cached (post_cache h) (py_key u) = None) (set_iter rt (all_uris r)) \<and>
         length (profile_calls cs) = (length missing_dids + 24) div 25 \<and>
         length (post_calls cs) = (length missing_uris + 24) div 25 \<and>
         concat (profile_calls cs) = missing_dids \<and>
         concat (post_calls cs) = missing_uris \<and>
         (\<forall>c \<in> set (profile_calls cs) \<union> set (post_calls cs). c \<noteq> [] \<and> length c \<le> 25) \<and>
         (mset (set_iter rt (all_dids r)) = mset (all_dids r) \<longrightarrow> distinct (map py_key missing_dids)) \<and>
         (mset (set_iter rt (all_uris r)) = mset (all_uris r) \<longrightarrow> distinct (map py_key missing_uris)) \<and>
         fetch_missing_users api [] = (Inr [], []) \<and>
         fetch_missing_posts api [] = (Inr [], []) \<and>
         chunked_map [] n fetcher = (Inr [], [])"
proof -
  from assms(2) obtain api' where api: "py_choice (draw rt) api_clients = Inr api'"
    by (simp add: py_choice_def)
  from hydrate_bulk_calls[OF assms(1,3) api] assms(4)
  have cs: "cs = \<lparr>profile_calls = chunks_of 25 missing_dids, post_calls = chunks_of 25 missing_uris\<rparr>"
    by (simp add: fetch_missing_calls)
  from assms(3) have md: "missing_dids = filter (\<lambda>d. cached (user_cache h) (py_key d) = None) (set_iter rt (all_dids r))"
    and mu: "missing_uris = filter (\<lambda>u. cached (post_cache h) (py_key u) = None) (set_iter rt (all_uris r))"
    by (auto simp: probe_caches_def Let_def probe_missing)
  from collect_refs_inv[OF assms(1)] have inv: "distinct (map py_key (all_dids r))"
    "distinct (map py_key (all_uris r))" by (simp_all add: refs_inv_def)
  have dd: "distinct (map py_key missing_dids)" if "mset (set_iter rt (all_dids r)) = mset (all_dids r)"
  proof -
    from that have "mset (map py_key (set_iter rt (all_dids r))) = mset (map py_key (all_dids r))" by simp
    with inv(1) have "distinct (map py_key (set_iter rt (all_dids r)))"
      by (metis mset_eq_imp_distinct_iff)
    then show ?thesis unfolding md by (simp add: distinct_map_filter)
  qed
  have du: "distinct (map py_key missing_uris)" if "mset (set_iter rt (all_uris r)) = mset (all_uris r)"
  proof -
    from that have "mset (map py_key (set_iter rt (all_uris r))) = mset (map py_key (all_uris r))" by simp
    with inv(2) have "distinct (map py_key (set_iter rt (all_uris r)))"
      by (metis mset_eq_imp_distinct_iff)
    then show ?thesis unfolding mu by (simp add: distinct_map_filter)
  qed
  have sizes: "\<forall>c \<in> set (profile_calls cs) \<union> set (post_calls cs). c \<noteq> [] \<and> length c \<le> 25"
    unfolding cs using chunks_of_sizes[of _ 25] by auto
  have e: "fetch_missing_users api [] = (Inr [], [])" "fetch_missing_posts api [] = (Inr [], [])"
    "chunked_map [] n fetcher = (Inr [], [])"
    by (simp_all add: fetch_missing_users_def fetch_missing_posts_def chunked_map_def)
  have len: "length (profile_calls cs) = (length missing_dids + 24) div 25"
    "length (post_calls cs) = (length missing_uris + 24) div 25"
    unfolding cs by (simp_all add: chunks_of_length)
  have cat: "concat (profile_calls cs) = missing_dids" "concat (post_calls cs) = missing_uris"
    unfolding cs by (simp_all add: chunks_of_concat)
  note refs = collect_refs_result(1,2)[OF assms(1)]
  show ?thesis
    by (intro conjI impI) (fact refs md mu len cat sizes e | erule dd | erule du)+
qed



lemma crowd_run:
  "collect_refs [crowd_event] = Inr crowd_refs"
  "probe_caches rt_insertion crowd_refs (empty_caches 50) =
     (JStr ''D1'' # map JStr crowd_names, [], empty_caches 50)"
  "length (JStr ''D1'' # map JStr crowd_names) = 26"
  "map length (profile_calls (snd (snd (hydrate_bulk rt_insertion [echo_api] [crowd_event]
      (empty_caches 50))))) = [25, 1]"
  "post_calls (snd (snd (hydrate_bulk rt_insertion [echo_api] [crowd_event] (empty_caches 50)))) = []"
  by code_simp+

theorem remote_calls_witness:
  "collect_refs [crowd_event] = Inr crowd_refs \<and> [echo_api] \<noteq> [] \<and>
   probe_caches rt_insertion crowd_refs (empty_caches 50) =
     (JStr ''D1'' # map JStr crowd_names, [], empty_caches 50) \<and>
   length (JStr ''D1'' # map JStr crowd_names) = 26 \<and>
   length (profile_calls (snd (snd (hydrate_bulk rt_insertion [echo_api] [crowd_event]
      (empty_caches 50))))) = 2 \<and>
   map length (profile_calls (snd (snd (hydrate_bulk rt_insertion [echo_api] [crowd_event]
      (empty_caches 50))))) = [25, 1] \<and>
   post_calls (snd (snd (hydrate_bulk rt_insertion [echo_api] [crowd_event] (empty_caches 50)))) = [] \<and>
   mset (set_iter rt_insertion (all_dids crowd_refs)) = mset (all_dids crowd_refs)"
proof -
  have ne: "[echo_api] \<noteq> []" by simp
  have it: "mset (set_iter rt_insertion (all_dids crowd_refs)) = mset (all_dids crowd_refs)"
    by (simp add: rt_insertion_def)
  note calls = remote_calls[OF crowd_run(1) ne crowd_run(2) refl, where api = echo_api
      and n = 25 and fetcher = "fetch_profiles echo_api"]
  from calls have "length (profile_calls (snd (snd (hydrate_bulk rt_insertion [echo_api] [crowd_event]
      (empty_caches 50))))) = (length (JStr ''D1'' # map JStr crowd_names) + 24) div 25"
    by (elim conjE)
  then have l: "length (profile_calls (snd (snd (hydrate_bulk rt_insertion [echo_api] [crowd_event]
      (empty_caches 50))))) = 2"
    by (simp only: crowd_run(3))
  show ?thesis
    by (intro conjI) (fact crowd_run ne l it)+
qed

end
